theory Spec2Isabelle
  imports Complex_Main
begin

section \<open>Training-data filter (1\_Filter\_Training\_Data.ipynb)\<close>

subsection \<open>Errors and the scikit-learn interface\<close>

text \<open>
  The notebook calls scikit-learn for the scaler, the K-Means fit, the label
  prediction and the Calinski-Harabasz score.  These are library calls, so the
  code is modelled over an arbitrary implementation of them, given as a record
  of functions.  Each call may raise; a raise is the \<open>Inl\<close> branch of the result.
  \<open>AttributeError\<close> is what Python raises for \<open>None.predict(...)\<close>.
\<close>

datatype py_error = ValueError | AttributeError

type_synonym matrix = "real list list"

record ('s, 'm) sklearn =
  StandardScaler_fit :: "matrix \<Rightarrow> py_error + 's"
  StandardScaler_transform :: "'s \<Rightarrow> matrix \<Rightarrow> py_error + matrix"
  KMeans_fit :: "int \<Rightarrow> int \<Rightarrow> matrix \<Rightarrow> py_error + 'm"
  KMeans_predict :: "'m \<Rightarrow> matrix \<Rightarrow> py_error + nat list"
  calinski_harabasz_score :: "matrix \<Rightarrow> nat list \<Rightarrow> py_error + real"

subsection \<open>find\_clusters\_KMeans\<close>

text \<open>
  The loop state is \<open>(highest_score, n_cluster_optimal, kmeans_model_optimal,
  labels_optimal)\<close>; \<open>None\<close> is Python's \<open>None\<close>.  \<open>KMeans_fit sk n 1 data\<close> is
  \<open>KMeans(n_clusters=n, random_state=1).fit(data)\<close>: the seed is the literal 1.
\<close>

type_synonym 'm find_state = "real \<times> int \<times> 'm option \<times> nat list option"

fun find_loop ::
  "('s, 'm) sklearn \<Rightarrow> matrix \<Rightarrow> int list \<Rightarrow> 'm find_state \<Rightarrow> py_error + 'm find_state"
where
  "find_loop sk data [] st = Inr st"
| "find_loop sk data (n_cluster # rest)
     (highest_score, n_cluster_optimal, kmeans_model_optimal, labels_optimal) =
     (case KMeans_fit sk n_cluster 1 data of
        Inl e \<Rightarrow> Inl e
      | Inr kmeans_model \<Rightarrow>
         (case KMeans_predict sk kmeans_model data of
            Inl e \<Rightarrow> Inl e
          | Inr labels \<Rightarrow>
             (case calinski_harabasz_score sk data labels of
                Inl e \<Rightarrow> Inl e
              | Inr score \<Rightarrow>
                 if highest_score = - 999 \<or> highest_score < score
                 then find_loop sk data rest
                        (score, n_cluster, Some kmeans_model, Some labels)
                 else find_loop sk data rest
                        (highest_score, n_cluster_optimal, kmeans_model_optimal,
                         labels_optimal))))"

definition find_clusters_KMeans ::
  "('s, 'm) sklearn \<Rightarrow> matrix \<Rightarrow> int \<Rightarrow> int \<Rightarrow> py_error + (int \<times> 'm option \<times> nat list option)"
where
  "find_clusters_KMeans sk data min_cluster max_cluster =
     (case find_loop sk data [min_cluster..max_cluster - 1]
             (- 999, min_cluster, None, None) of
        Inl e \<Rightarrow> Inl e
      | Inr (highest_score, n_cluster_optimal, kmeans_model_optimal, labels_optimal) \<Rightarrow>
          Inr (n_cluster_optimal, kmeans_model_optimal, labels_optimal))"

text \<open>
  A small implementation of the interface on which the notebook's code can be
  run: the scaler is the identity and rejects an empty matrix, a fit rejects
  fewer rows than clusters (as scikit-learn does) and returns the cluster count
  as its model, a point's label is its row index modulo the cluster count, and
  the score of a labelling is looked up in a table by its number of clusters;
  like scikit-learn's, the score rejects a labelling with fewer than two
  clusters or with as many clusters as rows.
\<close>

definition table_sklearn :: "(int \<Rightarrow> real) \<Rightarrow> (unit, int) sklearn" where
  "table_sklearn tbl =
     \<lparr> StandardScaler_fit = (\<lambda>X. if X = [] then Inl ValueError else Inr ()),
       StandardScaler_transform = (\<lambda>s X. Inr X),
       KMeans_fit = (\<lambda>n seed X. if int (length X) < n \<or> n < 1 then Inl ValueError else Inr n),
       KMeans_predict = (\<lambda>m X. Inr (map (\<lambda>i. i mod nat m) [0..<length X])),
       calinski_harabasz_score = (\<lambda>X labels.
          if 2 \<le> length (remdups labels) \<and> length (remdups labels) + 1 \<le> length X
          then Inr (tbl (int (length (remdups labels)))) else Inl ValueError) \<rparr>"

definition six_rows :: matrix where
  "six_rows = [[0], [1], [2], [3], [4], [5]]"

subsection \<open>Filtering one class by cluster frequency\<close>

text \<open>
  A row of the training (or random-sample) data frame: the class label column
  \<open>class_attr\<close>, the feature columns \<open>iloc[:,1:-3]\<close>, and the last three columns
  (coordinates and geometry), which the filter carries along unread.
\<close>

record row =
  LC_Class_I :: int
  feats :: "real list"
  geometry :: "real \<times> real"

text \<open>
  \<open>value_counts\<close> is \<open>Series.value_counts()\<close>: one entry per label that occurs, holding
  its number of occurrences.  With \<open>normalize=True\<close> each count is divided by the
  number of rows.  \<open>Series.map\<close> looks every label up and gives NaN (\<open>None\<close>) for a
  missing key; a comparison with NaN is false.
\<close>

definition value_counts :: "nat list \<Rightarrow> (nat \<rightharpoonup> nat)" where
  "value_counts labels =
     fold (\<lambda>l m. m(l \<mapsto> (case m l of None \<Rightarrow> 1 | Some c \<Rightarrow> Suc c))) labels Map.empty"

definition value_counts_normalize :: "nat list \<Rightarrow> (nat \<rightharpoonup> real)" where
  "value_counts_normalize labels =
     (\<lambda>l. map_option (\<lambda>c. real c / real (length labels)) (value_counts labels l))"

text \<open>
  A filtered frame keeps, for every surviving row, its index (the frame was
  re-indexed \<open>0..n-1\<close> by \<open>reset_index(drop=True)\<close>), the row, and the added columns
  \<open>cluster\<close> and \<open>cluster_frequency\<close>.  Assigning a column whose length differs
  from the frame's raises \<open>ValueError\<close>.
\<close>

type_synonym frame = "(nat \<times> row \<times> nat \<times> real option) list"

definition filter_td :: "real \<Rightarrow> row list \<Rightarrow> nat list \<Rightarrow> py_error + frame" where
  "filter_td frequency_threshold td_single_class labels_kmeans =
     (if length labels_kmeans \<noteq> length td_single_class then Inl ValueError
      else
        let cluster_frequency = map (value_counts_normalize labels_kmeans) labels_kmeans;
            td = zip [0..<length td_single_class]
                   (zip td_single_class (zip labels_kmeans cluster_frequency))
        in Inr (filter (\<lambda>(i, r, c, f).
                   case f of None \<Rightarrow> False | Some v \<Rightarrow> frequency_threshold \<le> v) td))"

subsection \<open>The loop over all classes\<close>

text \<open>
  One iteration of the loop, up to the filtered frame of class \<open>i\<close>.  The scaler is
  fitted anew on the random samples of the class before it is used, and the
  cluster range is the literal \<open>[3, 20)\<close>.
\<close>

definition filter_class ::
  "('s, 'm) sklearn \<Rightarrow> row list \<Rightarrow> row list \<Rightarrow> real \<Rightarrow> int \<Rightarrow> py_error + frame"
where
  "filter_class sk rand_samples_features training_features frequency_threshold i =
     (let rand_features_single_class = filter (\<lambda>r. LC_Class_I r = i) rand_samples_features;
          td_single_class = filter (\<lambda>r. LC_Class_I r = i) training_features
      in case StandardScaler_fit sk (map feats rand_features_single_class) of
           Inl e \<Rightarrow> Inl e
         | Inr scaler \<Rightarrow>
      (case StandardScaler_transform sk scaler (map feats rand_features_single_class) of
           Inl e \<Rightarrow> Inl e
         | Inr rand_X \<Rightarrow>
      (case find_clusters_KMeans sk rand_X 3 20 of
           Inl e \<Rightarrow> Inl e
         | Inr (n_cluster_optimal, kmeans_model_optimal, labels_optimal) \<Rightarrow>
      (case StandardScaler_transform sk scaler (map feats td_single_class) of
           Inl e \<Rightarrow> Inl e
         | Inr model_input \<Rightarrow>
      (case kmeans_model_optimal of
           None \<Rightarrow> Inl AttributeError
         | Some model \<Rightarrow>
      (case KMeans_predict sk model model_input of
           Inl e \<Rightarrow> Inl e
         | Inr labels_kmeans \<Rightarrow>
             filter_td frequency_threshold td_single_class labels_kmeans))))))"

text \<open>
  The loop has no \<open>try\<close>: an exception raised in an iteration ends the cell.  The
  result is the value of the global \<open>training_features_filtered\<close> when the cell
  stops (\<open>None\<close> while nothing was appended), and the exception, if any.
\<close>

fun filter_loop ::
  "('s, 'm) sklearn \<Rightarrow> row list \<Rightarrow> row list \<Rightarrow> real \<Rightarrow> int list \<Rightarrow> frame option
     \<Rightarrow> frame option \<times> py_error option"
where
  "filter_loop sk rand_samples_features training_features frequency_threshold []
     training_features_filtered = (training_features_filtered, None)"
| "filter_loop sk rand_samples_features training_features frequency_threshold (i # rest)
     training_features_filtered =
     (case filter_class sk rand_samples_features training_features frequency_threshold i of
        Inl e \<Rightarrow> (training_features_filtered, Some e)
      | Inr td_single_class_filtered \<Rightarrow>
          filter_loop sk rand_samples_features training_features frequency_threshold rest
            (case training_features_filtered of
               None \<Rightarrow> Some td_single_class_filtered
             | Some acc \<Rightarrow> Some (acc @ td_single_class_filtered)))"

text \<open>\<open>Series.unique()\<close>: the distinct values in order of first appearance.\<close>

definition unique :: "'a list \<Rightarrow> 'a list" where
  "unique xs = rev (remdups (rev xs))"

definition filter_training_features ::
  "('s, 'm) sklearn \<Rightarrow> row list \<Rightarrow> row list \<Rightarrow> frame option \<times> py_error option"
where
  "filter_training_features sk rand_samples_features training_features =
     filter_loop sk rand_samples_features training_features (5 / 100)
       (unique (map LC_Class_I training_features)) None"

text \<open>Concrete frames: \<open>n\<close> rows of class \<open>c\<close> whose single feature is the row number.\<close>

definition rows_of :: "int \<Rightarrow> nat \<Rightarrow> row list" where
  "rows_of c n = map (\<lambda>k. \<lparr>LC_Class_I = c, feats = [real k], geometry = (0, 0)\<rparr>) [0..<n]"

definition labels_190_10 :: "nat list" where
  "labels_190_10 = replicate 190 0 @ replicate 10 1"

definition rand_213 :: "row list" where
  "rand_213 = rows_of 2 20 @ rows_of 1 2 @ rows_of 3 20"

definition training_213 :: "row list" where
  "training_213 = rows_of 2 4 @ rows_of 1 3 @ rows_of 3 5"

definition class2_frame :: frame where
  "class2_frame =
     [(0, \<lparr>LC_Class_I = 2, feats = [0], geometry = (0, 0)\<rparr>, 0, Some (1 / 2)),
      (1, \<lparr>LC_Class_I = 2, feats = [1], geometry = (0, 0)\<rparr>, 1, Some (1 / 4)),
      (2, \<lparr>LC_Class_I = 2, feats = [2], geometry = (0, 0)\<rparr>, 2, Some (1 / 4)),
      (3, \<lparr>LC_Class_I = 2, feats = [3], geometry = (0, 0)\<rparr>, 0, Some (1 / 2))]"

section \<open>Post-processing of the classification maps (smoothing and reclassification)\<close>

subsection \<open>Arrays and the class dictionary\<close>

text \<open>
  A two-dimensional numpy array is a list of rows.  Class codes are \<open>uint8\<close>; the
  code never computes with them (it compares them and stores constants below
  256), so they are natural numbers.  A float is a real or NaN (\<open>None\<close>); every
  comparison with NaN is false.
\<close>

type_synonym 'a array2 = "'a list list"

definition pixels :: "'a array2 \<Rightarrow> 'a set" where
  "pixels a = set (concat a)"

definition rect :: "nat \<Rightarrow> nat \<Rightarrow> 'a array2 \<Rightarrow> bool" where
  "rect h w a \<longleftrightarrow> length a = h \<and> list_all (\<lambda>row. length row = w) a"

datatype lc_class =
  Forest | Grassland | Shrubland | Perennial_Cropland | Annual_Cropland
  | Wetland | Water_Body | Urban_Settlement

fun dict_map :: "lc_class \<Rightarrow> nat" where
  "dict_map Forest = 1"
| "dict_map Grassland = 5"
| "dict_map Shrubland = 7"
| "dict_map Perennial_Cropland = 9"
| "dict_map Annual_Cropland = 10"
| "dict_map Wetland = 11"
| "dict_map Water_Body = 12"
| "dict_map Urban_Settlement = 13"

definition valid_codes :: "nat set" where
  "valid_codes = {0} \<union> {1, 5, 7, 9, 10, 11, 12, 13}"

text \<open>
  Element-wise numpy expressions: \<open>a == k\<close>, \<open>a != k\<close>, \<open>a <= k\<close> on floats, \<open>&\<close>, \<open>|\<close>,
  and the masked assignment \<open>cur[cond] = v\<close>.
\<close>

definition arr_eq :: "'a array2 \<Rightarrow> 'a \<Rightarrow> bool array2" where
  "arr_eq a k = map (map (\<lambda>x. x = k)) a"

definition arr_neq :: "'a array2 \<Rightarrow> 'a \<Rightarrow> bool array2" where
  "arr_neq a k = map (map (\<lambda>x. x \<noteq> k)) a"

definition arr_le :: "real option array2 \<Rightarrow> real \<Rightarrow> bool array2" where
  "arr_le a k = map (map (\<lambda>x. case x of None \<Rightarrow> False | Some v \<Rightarrow> v \<le> k)) a"

definition arr_and :: "bool array2 \<Rightarrow> bool array2 \<Rightarrow> bool array2" where
  "arr_and a b = map2 (map2 (\<and>)) a b"

definition arr_or :: "bool array2 \<Rightarrow> bool array2 \<Rightarrow> bool array2" where
  "arr_or a b = map2 (map2 (\<or>)) a b"

definition assign_where :: "'a array2 \<Rightarrow> bool array2 \<Rightarrow> 'a \<Rightarrow> 'a array2" where
  "assign_where cur cond v = map2 (map2 (\<lambda>x c. if c then v else x)) cur cond"

subsection \<open>Footprints and binary dilation\<close>

text \<open>
  \<open>disk r\<close> is skimage's disk footprint, as the list of its offsets: the points of
  the square \<open>[-r, r]\<^sup>2\<close> with \<open>dy\<^sup>2 + dx\<^sup>2 \<le> r\<^sup>2\<close>.  \<open>binary_dilation\<close> sets a pixel when
  some offset of the footprint leads to a set pixel inside the image; outside
  the image nothing is set.
\<close>

definition disk :: "nat \<Rightarrow> (int \<times> int) list" where
  "disk r = concat (map (\<lambda>dy. concat (map (\<lambda>dx.
               if dy * dy + dx * dx \<le> int r * int r then [(dy, dx)] else [])
             [- int r..int r])) [- int r..int r])"

definition in_image :: "'a array2 \<Rightarrow> int \<Rightarrow> int \<Rightarrow> bool" where
  "in_image a r c \<longleftrightarrow> 0 \<le> r \<and> r < int (length a) \<and> 0 \<le> c \<and> c < int (length (a ! nat r))"

definition binary_dilation :: "bool array2 \<Rightarrow> (int \<times> int) list \<Rightarrow> bool array2" where
  "binary_dilation img footprint =
     map (\<lambda>i. map (\<lambda>j. list_ex (\<lambda>(dy, dx).
                  in_image img (int i + dy) (int j + dx)
                  \<and> img ! nat (int i + dy) ! nat (int j + dx)) footprint)
            [0..<length (img ! i)])
       [0..<length img]"

subsection \<open>The reclassification rules\<close>

text \<open>
  Each rule is one masked assignment of the notebook.  \<open>np_lc_map\<close> is the map as
  loaded, \<open>cur\<close> is \<open>np_lc_map_postproc\<close> before the assignment.  The urban rule
  compares the WSF layer with 255 in the demonstration cell and with 1 in the
  loop; \<open>wsf_value\<close> is that literal.
\<close>

definition rule_water ::
  "nat array2 \<Rightarrow> real option array2 \<Rightarrow> nat array2 \<Rightarrow> nat array2 \<Rightarrow> nat array2"
where
  "rule_water np_lc_map np_hand np_river_network_mask cur =
     assign_where cur
       (arr_or (arr_and (arr_eq np_lc_map (dict_map Water_Body)) (arr_le np_hand 45))
               (arr_eq np_river_network_mask 1))
       (dict_map Water_Body)"

definition rule_urban ::
  "nat \<Rightarrow> real option array2 \<Rightarrow> nat array2 \<Rightarrow> nat array2 \<Rightarrow> nat array2"
where
  "rule_urban wsf_value np_google_buildings_mask np_wsf2019 cur =
     assign_where cur
       (arr_or (arr_eq np_google_buildings_mask (Some 1)) (arr_eq np_wsf2019 wsf_value))
       (dict_map Urban_Settlement)"

definition rule_cropland :: "nat array2 \<Rightarrow> nat array2 \<Rightarrow> nat array2" where
  "rule_cropland np_lc_map cur =
     (let urban_buffered =
            binary_dilation (arr_eq np_lc_map (dict_map Urban_Settlement)) (disk 5)
      in assign_where cur
           (arr_and (arr_eq (map (map of_bool) urban_buffered) (1::nat))
                    (arr_eq np_lc_map (dict_map Wetland)))
           (dict_map Annual_Cropland))"

definition rule_road :: "nat array2 \<Rightarrow> nat array2 \<Rightarrow> nat array2" where
  "rule_road np_road_network_mask cur =
     assign_where cur (arr_eq np_road_network_mask 1) (dict_map Urban_Settlement)"

record aligned =
  np_hand :: "real option array2"
  np_river_network_mask :: "nat array2"
  np_google_buildings_mask :: "real option array2"
  np_wsf2019 :: "nat array2"
  np_road_network_mask :: "nat array2"

definition rules_1_2 :: "nat \<Rightarrow> nat array2 \<Rightarrow> nat array2 \<Rightarrow> aligned \<Rightarrow> nat array2" where
  "rules_1_2 wsf_value np_lc_map np_lc_map_postproc L =
     rule_urban wsf_value (np_google_buildings_mask L) (np_wsf2019 L)
       (rule_water np_lc_map (np_hand L) (np_river_network_mask L) np_lc_map_postproc)"

definition apply_rules :: "nat \<Rightarrow> nat array2 \<Rightarrow> nat array2 \<Rightarrow> aligned \<Rightarrow> nat array2" where
  "apply_rules wsf_value np_lc_map np_lc_map_postproc L =
     rule_road (np_road_network_mask L)
       (rule_cropland np_lc_map (rules_1_2 wsf_value np_lc_map np_lc_map_postproc L))"

subsection \<open>The geospatial library interface and the notebook's state\<close>

text \<open>
  \<open>modal\<close> (skimage.filters.rank), \<open>xr_reproject\<close> (odc.algo) and \<open>xr_rasterize\<close>
  (deafrica\_tools) are library functions: the code is modelled over an arbitrary
  implementation of them; skimage's own \<open>modal\<close> is \<open>rank_modal\<close>, defined below.  \<open>'g\<close> is a geobox, \<open>'fl\<close> a float dataset, \<open>'ul\<close> a
  \<open>uint8\<close> dataset and \<open>'v\<close> a vector layer; the two \<open>to_numpy\<close> fields are
  \<open>.to_array().squeeze().to_numpy()\<close>.  The calls are taken to return, which
  for \<open>modal\<close> needs a map of at least two rows and two columns (\<open>squeeze()\<close>
  drops a dimension of length one, and \<open>modal\<close> raises on what is left).
\<close>

datatype resampling = Nearest | Average

record ('g, 'fl, 'ul, 'v) geo_lib =
  modal :: "nat array2 \<Rightarrow> (int \<times> int) list \<Rightarrow> bool array2 \<Rightarrow> nat array2"
  xr_reproject_float :: "'fl \<Rightarrow> 'g \<Rightarrow> resampling \<Rightarrow> 'fl"
  xr_reproject_uint8 :: "'ul \<Rightarrow> 'g \<Rightarrow> resampling \<Rightarrow> 'ul"
  float_to_numpy :: "'fl \<Rightarrow> real option array2"
  uint8_to_numpy :: "'ul \<Rightarrow> nat array2"
  xr_rasterize :: "'v \<Rightarrow> 'g \<Rightarrow> nat array2"

record 'g data_array =
  geobox :: 'g
  to_numpy :: "nat array2"

text \<open>
  The global variables the refinement cells read and write.  \<open>hand\<close> and \<open>wsf2019\<close>
  are assigned by the cells (\<open>hand=xr_reproject(hand, ...)\<close>); the reprojected
  buildings go to a variable of their own, \<open>google_buildings_mask\<close>.
\<close>

record ('fl, 'ul, 'v) globals =
  hand :: 'fl
  google_buildings :: 'fl
  wsf2019 :: 'ul
  river_network :: 'v
  road_network :: 'v
  prediction_maps_postproc :: "nat array2 list"

text \<open>
  The layers aligned to the geobox of the map being refined.  The cells compute
  them between the rules; each rule reads only the layers aligned before it.
\<close>

definition align ::
  "('g, 'fl, 'ul, 'v) geo_lib \<Rightarrow> ('fl, 'ul, 'v) globals \<Rightarrow> 'g \<Rightarrow> aligned"
where
  "align lib st ds_geobox =
     \<lparr> np_hand = float_to_numpy lib (xr_reproject_float lib (hand st) ds_geobox Average),
       np_river_network_mask = xr_rasterize lib (river_network st) ds_geobox,
       np_google_buildings_mask =
         float_to_numpy lib (xr_reproject_float lib (google_buildings st) ds_geobox Average),
       np_wsf2019 = uint8_to_numpy lib (xr_reproject_uint8 lib (wsf2019 st) ds_geobox Nearest),
       np_road_network_mask = xr_rasterize lib (road_network st) ds_geobox \<rparr>"

text \<open>
  The refinement steps for one map: the mode filter, the alignment, the four
  rules.  The result is the state with \<open>hand\<close> and \<open>wsf2019\<close> reassigned, and the
  refined array.
\<close>

definition refine_steps ::
  "nat \<Rightarrow> ('g, 'fl, 'ul, 'v) geo_lib \<Rightarrow> ('fl, 'ul, 'v) globals \<Rightarrow> 'g data_array
     \<Rightarrow> ('fl, 'ul, 'v) globals \<times> nat array2"
where
  "refine_steps wsf_value lib st lc_map =
     (let np_lc_map = to_numpy lc_map;
          np_lc_map_postproc = modal lib np_lc_map (disk 2) (arr_neq np_lc_map 0);
          ds_geobox = geobox lc_map
      in (st\<lparr> hand := xr_reproject_float lib (hand st) ds_geobox Average,
               wsf2019 := xr_reproject_uint8 lib (wsf2019 st) ds_geobox Nearest \<rparr>,
          apply_rules wsf_value np_lc_map np_lc_map_postproc (align lib st ds_geobox)))"

text \<open>The demonstration cells (WSF foreground 255) and the loop body (WSF foreground 1).\<close>

definition demo_steps ::
  "('g, 'fl, 'ul, 'v) geo_lib \<Rightarrow> ('fl, 'ul, 'v) globals \<Rightarrow> 'g data_array
     \<Rightarrow> ('fl, 'ul, 'v) globals \<times> nat array2"
where
  "demo_steps lib st lc_map = refine_steps 255 lib st lc_map"

definition loop_body ::
  "('g, 'fl, 'ul, 'v) geo_lib \<Rightarrow> ('fl, 'ul, 'v) globals \<Rightarrow> 'g data_array
     \<Rightarrow> ('fl, 'ul, 'v) globals"
where
  "loop_body lib st lc_map =
     (case refine_steps 1 lib st lc_map of
        (st', np_lc_map_postproc) \<Rightarrow>
          st'\<lparr> prediction_maps_postproc :=
                 prediction_maps_postproc st' @ [np_lc_map_postproc] \<rparr>)"

fun refinement_loop ::
  "('g, 'fl, 'ul, 'v) geo_lib \<Rightarrow> ('fl, 'ul, 'v) globals \<Rightarrow> 'g data_array list
     \<Rightarrow> ('fl, 'ul, 'v) globals"
where
  "refinement_loop lib st [] = st"
| "refinement_loop lib st (lc_map # rest) = refinement_loop lib (loop_body lib st lc_map) rest"

definition refine_all ::
  "('g, 'fl, 'ul, 'v) geo_lib \<Rightarrow> ('fl, 'ul, 'v) globals \<Rightarrow> 'g data_array list
     \<Rightarrow> nat array2 list"
where
  "refine_all lib st prediction_maps =
     prediction_maps_postproc
       (refinement_loop lib (st\<lparr> prediction_maps_postproc := [] \<rparr>) prediction_maps)"

subsection \<open>The mode filter of skimage\<close>

text \<open>
  \<open>skimage.filters.rank.modal(image, footprint, mask)\<close>, after the library's rank
  kernel.  For every pixel of the image, inside the mask or not, the filter
  builds the histogram of the pixels that lie under the footprint centred on it,
  inside the image and inside the mask (\<open>votes\<close>).  When the histogram is empty
  the output pixel is 0.  Otherwise the kernel scans the values in ascending
  order and keeps a value whenever its count is strictly greater than the best
  count so far (\<open>mode_of\<close>): the output is the most frequent value, the smallest
  one among equally frequent values.
\<close>

definition votes :: "nat array2 \<Rightarrow> (int \<times> int) list \<Rightarrow> bool array2 \<Rightarrow> nat \<Rightarrow> nat \<Rightarrow> nat list" where
  "votes img footprint msk i j =
     map (\<lambda>(dy, dx). img ! nat (int i + dy) ! nat (int j + dx))
       (filter (\<lambda>(dy, dx).
            in_image img (int i + dy) (int j + dx)
            \<and> in_image msk (int i + dy) (int j + dx)
            \<and> msk ! nat (int i + dy) ! nat (int j + dx)) footprint)"

definition mode_step :: "nat list \<Rightarrow> nat \<Rightarrow> nat \<times> nat \<Rightarrow> nat \<times> nat" where
  "mode_step histo v = (\<lambda>(imax, hmax).
     if hmax < count_list histo v then (v, count_list histo v) else (imax, hmax))"

definition mode_of :: "nat list \<Rightarrow> nat" where
  "mode_of histo =
     (if histo = [] then 0
      else fst (fold (mode_step histo) (sort (remdups histo)) (0, 0)))"

definition rank_modal :: "nat array2 \<Rightarrow> (int \<times> int) list \<Rightarrow> bool array2 \<Rightarrow> nat array2" where
  "rank_modal img footprint msk =
     map (\<lambda>i. map (\<lambda>j. mode_of (votes img footprint msk i j)) [0..<length (img ! i)])
       [0..<length img]"

subsection \<open>A grid implementation of the library interface\<close>

text \<open>
  To run the cells on concrete inputs, the interface is implemented for layers
  that share one coordinate system whose unit is the finest pixel.  A dataset has
  the world position of its upper-left corner, a pixel size and its values; a
  geobox has corner, pixel size and shape \<open>(rows, columns)\<close>.  A target pixel
  covers a block of whole source pixels.  \<open>Nearest\<close> copies the source pixel under
  the centre of the target pixel; \<open>Average\<close> is the mean of the source pixels of
  the block, NaN when one of them is NaN.  Where there is no source pixel the
  result is 0.  A vector layer is the list of unit cells it covers; rasterising
  burns 1 into every target pixel that contains one of them.  The mode filter
  is \<open>rank_modal\<close>.
\<close>

record 'a dataset =
  origin :: "int \<times> int"
  pixel :: nat
  vals :: "'a array2"

record grid_box =
  g_origin :: "int \<times> int"
  g_pixel :: nat
  g_shape :: "nat \<times> nat"

definition src_lookup :: "'a dataset \<Rightarrow> int \<Rightarrow> int \<Rightarrow> 'a option" where
  "src_lookup ds a b =
     (if 0 \<le> a \<and> a < int (length (vals ds)) \<and> 0 \<le> b \<and> b < int (length (vals ds ! nat a))
      then Some (vals ds ! nat a ! nat b) else None)"

definition block_start :: "'a dataset \<Rightarrow> grid_box \<Rightarrow> nat \<Rightarrow> nat \<Rightarrow> int \<times> int" where
  "block_start ds g i j =
     ((fst (g_origin g) + int i * int (g_pixel g) - fst (origin ds)) div int (pixel ds),
      (snd (g_origin g) + int j * int (g_pixel g) - snd (origin ds)) div int (pixel ds))"

definition block :: "'a dataset \<Rightarrow> grid_box \<Rightarrow> nat \<Rightarrow> nat \<Rightarrow> 'a list" where
  "block ds g i j =
     (let k = g_pixel g div pixel ds; (a0, b0) = block_start ds g i j
      in List.map_filter (\<lambda>(da, db). src_lookup ds (a0 + int da) (b0 + int db))
           (List.product [0..<k] [0..<k]))"

definition nearest_px :: "'a dataset \<Rightarrow> grid_box \<Rightarrow> nat \<Rightarrow> nat \<Rightarrow> 'a option" where
  "nearest_px ds g i j =
     (let k = g_pixel g div pixel ds; (a0, b0) = block_start ds g i j
      in src_lookup ds (a0 + int (k div 2)) (b0 + int (k div 2)))"

definition on_grid :: "grid_box \<Rightarrow> (nat \<Rightarrow> nat \<Rightarrow> 'a) \<Rightarrow> 'a dataset" where
  "on_grid g f =
     \<lparr> origin = g_origin g, pixel = g_pixel g,
       vals = map (\<lambda>i. map (\<lambda>j. f i j) [0..<snd (g_shape g)]) [0..<fst (g_shape g)] \<rparr>"

definition grid_reproject_float ::
  "real option dataset \<Rightarrow> grid_box \<Rightarrow> resampling \<Rightarrow> real option dataset"
where
  "grid_reproject_float ds g method =
     on_grid g (\<lambda>i j.
       case method of
         Nearest \<Rightarrow> (case nearest_px ds g i j of None \<Rightarrow> Some 0 | Some v \<Rightarrow> v)
       | Average \<Rightarrow>
           (let xs = block ds g i j
            in if xs = [] then Some 0
               else if None \<in> set xs then None
               else Some (sum_list (List.map_filter id xs) / real (length xs))))"

definition grid_reproject_uint8 :: "nat dataset \<Rightarrow> grid_box \<Rightarrow> resampling \<Rightarrow> nat dataset" where
  "grid_reproject_uint8 ds g method =
     on_grid g (\<lambda>i j.
       case method of
         Nearest \<Rightarrow> (case nearest_px ds g i j of None \<Rightarrow> 0 | Some v \<Rightarrow> v)
       | Average \<Rightarrow>
           (let xs = block ds g i j
            in if xs = [] then 0 else sum_list xs div length xs))"

definition grid_rasterize :: "(int \<times> int) list \<Rightarrow> grid_box \<Rightarrow> nat array2" where
  "grid_rasterize cells g =
     vals (on_grid g (\<lambda>i j.
       if list_ex (\<lambda>(r, c).
            fst (g_origin g) + int i * int (g_pixel g) \<le> r
            \<and> r < fst (g_origin g) + (int i + 1) * int (g_pixel g)
            \<and> snd (g_origin g) + int j * int (g_pixel g) \<le> c
            \<and> c < snd (g_origin g) + (int j + 1) * int (g_pixel g)) cells
       then 1 else 0))"

definition grid_lib ::
  "(grid_box, real option dataset, nat dataset, (int \<times> int) list) geo_lib"
where
  "grid_lib =
     \<lparr> modal = rank_modal,
       xr_reproject_float = grid_reproject_float,
       xr_reproject_uint8 = grid_reproject_uint8,
       float_to_numpy = vals,
       uint8_to_numpy = vals,
       xr_rasterize = grid_rasterize \<rparr>"

text \<open>
  Two locations of two by two pixels side by side, \<open>forest_at 0\<close> over the columns
  0 and 1 and \<open>forest_at 2\<close> over the columns 2 and 3, both Forest, and layers that
  cover both: no river, no road, no building, drainage height 100, and a
  settlement footprint with foreground \<open>fg\<close>.
\<close>

definition box_at :: "int \<Rightarrow> grid_box" where
  "box_at c = \<lparr> g_origin = (0, c), g_pixel = 1, g_shape = (2, 2) \<rparr>"

definition forest_at :: "int \<Rightarrow> grid_box data_array" where
  "forest_at c =
     \<lparr> geobox = box_at c,
       to_numpy = [[dict_map Forest, dict_map Forest], [dict_map Forest, dict_map Forest]] \<rparr>"

definition layers_AB :: "nat \<Rightarrow> (real option dataset, nat dataset, (int \<times> int) list) globals" where
  "layers_AB fg =
     \<lparr> hand = \<lparr> origin = (0, 0), pixel = 1,
                vals = [[Some 100, Some 100, Some 100, Some 100],
                        [Some 100, Some 100, Some 100, Some 100]] \<rparr>,
       google_buildings = \<lparr> origin = (0, 0), pixel = 1,
                vals = [[Some 0, Some 0, Some 0, Some 0],
                        [Some 0, Some 0, Some 0, Some 0]] \<rparr>,
       wsf2019 = \<lparr> origin = (0, 0), pixel = 1,
                   vals = [[fg, fg, fg, fg], [fg, fg, fg, fg]] \<rparr>,
       river_network = [],
       road_network = [],
       prediction_maps_postproc = [] \<rparr>"

text \<open>
  A map with a no-data pixel, a Wetland pixel and two Urban Settlement pixels, at
  the place of \<open>forest_at 0\<close>.
\<close>

definition mixed_map :: "nat array2" where
  "mixed_map = [[0, 11], [13, 13]]"

definition mixed_at_0 :: "grid_box data_array" where
  "mixed_at_0 = \<lparr> geobox = box_at 0, to_numpy = mixed_map \<rparr>"

text \<open>
  A one-row map, three Urban Settlement pixels followed by three Wetland pixels,
  in which every pixel holds the mode of its neighbourhood, and its aligned
  layers: a river over the first Wetland pixel, nothing else.
\<close>

definition urban_wetland_row :: "nat array2" where
  "urban_wetland_row = [[13, 13, 13, 11, 11, 11]]"

definition river_layers :: aligned where
  "river_layers =
     \<lparr> np_hand = [[None, None, None, None, None, None]],
       np_river_network_mask = [[0, 0, 0, 1, 0, 0]],
       np_google_buildings_mask = [[Some 0, Some 0, Some 0, Some 0, Some 0, Some 0]],
       np_wsf2019 = [[0, 0, 0, 0, 0, 0]],
       np_road_network_mask = [[0, 0, 0, 0, 0, 0]] \<rparr>"

text \<open>
  Layers at pixel size 1 under a single map pixel of size 2: one of the four
  building cells is built up.
\<close>

definition coarse_box :: grid_box where
  "coarse_box = \<lparr> g_origin = (0, 0), g_pixel = 2, g_shape = (1, 1) \<rparr>"

definition layers_fine :: "(real option dataset, nat dataset, (int \<times> int) list) globals" where
  "layers_fine =
     \<lparr> hand = \<lparr> origin = (0, 0), pixel = 1,
                vals = [[Some 100, Some 100], [Some 100, Some 100]] \<rparr>,
       google_buildings = \<lparr> origin = (0, 0), pixel = 1,
                            vals = [[Some 0, Some 0], [Some 0, Some 1]] \<rparr>,
       wsf2019 = \<lparr> origin = (0, 0), pixel = 1, vals = [[0, 0], [0, 0]] \<rparr>,
       river_network = [],
       road_network = [],
       prediction_maps_postproc = [] \<rparr>"

section \<open>Properties of the training-data filter\<close>

subsection \<open>Selection of the cluster count\<close>

lemma upto_split_sets:
  assumes "[a..b] = pre @ k # post"
  shows "set pre = {a..<k} \<and> set post = {k<..b} \<and> a \<le> k \<and> k \<le> b"
proof -
  have s: "sorted (pre @ k # post)" and d: "distinct (pre @ k # post)"
    using assms sorted_upto distinct_upto by metis+
  have all: "set pre \<union> {k} \<union> set post = {a..b}"
  proof -
    have "set (pre @ k # post) = {a..b}" using assms set_upto by metis
    then show ?thesis by auto
  qed
  have pre: "\<forall>j\<in>set pre. j < k" using s d by (auto simp: sorted_append less_le)
  have post: "\<forall>j\<in>set post. k < j" using s d by (auto simp: sorted_append less_le)
  have k: "a \<le> k \<and> k \<le> b" using all by auto
  have p1: "set pre \<subseteq> {a..<k}" using all pre by auto
  have p2: "{a..<k} \<subseteq> set pre"
  proof
    fix j assume "j \<in> {a..<k}"
    then have "j \<in> {a..b}" "j < k" using k by auto
    then have "j \<in> set pre \<union> {k} \<union> set post" using all by simp
    then show "j \<in> set pre" using \<open>j < k\<close> post by auto
  qed
  have q1: "set post \<subseteq> {k<..b}" using all post by auto
  have q2: "{k<..b} \<subseteq> set post"
  proof
    fix j assume "j \<in> {k<..b}"
    then have "j \<in> {a..b}" "k < j" using k by auto
    then have "j \<in> set pre \<union> {k} \<union> set post" using all by simp
    then show "j \<in> set post" using \<open>k < j\<close> pre by auto
  qed
  show ?thesis using p1 p2 q1 q2 k by blast
qed


lemma find_loop_started:
  assumes ok: "\<forall>k\<in>set ks. KMeans_fit sk k 1 data = Inr (mdl k)
            \<and> KMeans_predict sk (mdl k) data = Inr (lab k)
            \<and> calinski_harabasz_score sk data (lab k) = Inr (sc k)"
      and ns: "\<forall>k\<in>set ks. sc k \<noteq> - 999"
      and hs: "hs \<noteq> - 999"
  shows "(find_loop sk data ks (hs, n, m, l) = Inr (hs, n, m, l) \<and> (\<forall>j\<in>set ks. sc j \<le> hs))
       \<or> (\<exists>pre k post. ks = pre @ k # post \<and> hs < sc k
             \<and> (\<forall>j\<in>set pre. sc j < sc k) \<and> (\<forall>j\<in>set post. sc j \<le> sc k)
             \<and> find_loop sk data ks (hs, n, m, l) = Inr (sc k, k, Some (mdl k), Some (lab k)))"
  using ok ns hs
proof (induction ks arbitrary: hs n m l)
  case Nil
  then show ?case by simp
next
  case (Cons a ks)
  have a: "KMeans_fit sk a 1 data = Inr (mdl a)" "KMeans_predict sk (mdl a) data = Inr (lab a)"
          "calinski_harabasz_score sk data (lab a) = Inr (sc a)" "sc a \<noteq> - 999"
    using Cons.prems by auto
  have ok': "\<forall>k\<in>set ks. KMeans_fit sk k 1 data = Inr (mdl k)
            \<and> KMeans_predict sk (mdl k) data = Inr (lab k)
            \<and> calinski_harabasz_score sk data (lab k) = Inr (sc k)"
    and ns': "\<forall>k\<in>set ks. sc k \<noteq> - 999"
    using Cons.prems by auto
  show ?case
  proof (cases "hs < sc a")
    case True
    have step: "find_loop sk data (a # ks) (hs, n, m, l)
                = find_loop sk data ks (sc a, a, Some (mdl a), Some (lab a))"
      using a True by simp
    from Cons.IH[OF ok' ns' a(4), of a "Some (mdl a)" "Some (lab a)"]
    show ?thesis
    proof
      assume h: "find_loop sk data ks (sc a, a, Some (mdl a), Some (lab a))
                   = Inr (sc a, a, Some (mdl a), Some (lab a)) \<and> (\<forall>j\<in>set ks. sc j \<le> sc a)"
      have "a # ks = [] @ a # ks \<and> hs < sc a \<and> (\<forall>j\<in>set []. sc j < sc a)
            \<and> (\<forall>j\<in>set ks. sc j \<le> sc a)
            \<and> find_loop sk data (a # ks) (hs, n, m, l) = Inr (sc a, a, Some (mdl a), Some (lab a))"
        using h True step by simp
      then show ?thesis by blast
    next
      assume "\<exists>pre k post. ks = pre @ k # post \<and> sc a < sc k
             \<and> (\<forall>j\<in>set pre. sc j < sc k) \<and> (\<forall>j\<in>set post. sc j \<le> sc k)
             \<and> find_loop sk data ks (sc a, a, Some (mdl a), Some (lab a))
                 = Inr (sc k, k, Some (mdl k), Some (lab k))"
      then obtain pre k post where p: "ks = pre @ k # post" "sc a < sc k"
             "\<forall>j\<in>set pre. sc j < sc k" "\<forall>j\<in>set post. sc j \<le> sc k"
             "find_loop sk data ks (sc a, a, Some (mdl a), Some (lab a))
                 = Inr (sc k, k, Some (mdl k), Some (lab k))" by blast
      have "a # ks = (a # pre) @ k # post \<and> hs < sc k \<and> (\<forall>j\<in>set (a # pre). sc j < sc k)
            \<and> (\<forall>j\<in>set post. sc j \<le> sc k)
            \<and> find_loop sk data (a # ks) (hs, n, m, l) = Inr (sc k, k, Some (mdl k), Some (lab k))"
        using p True step by simp
      then show ?thesis by blast
    qed
  next
    case False
    have step: "find_loop sk data (a # ks) (hs, n, m, l) = find_loop sk data ks (hs, n, m, l)"
      using a False Cons.prems(3) by simp
    from Cons.IH[OF ok' ns' Cons.prems(3), of n m l]
    show ?thesis
    proof
      assume h: "find_loop sk data ks (hs, n, m, l) = Inr (hs, n, m, l) \<and> (\<forall>j\<in>set ks. sc j \<le> hs)"
      then show ?thesis using step False by auto
    next
      assume "\<exists>pre k post. ks = pre @ k # post \<and> hs < sc k
             \<and> (\<forall>j\<in>set pre. sc j < sc k) \<and> (\<forall>j\<in>set post. sc j \<le> sc k)
             \<and> find_loop sk data ks (hs, n, m, l) = Inr (sc k, k, Some (mdl k), Some (lab k))"
      then obtain pre k post where p: "ks = pre @ k # post" "hs < sc k"
             "\<forall>j\<in>set pre. sc j < sc k" "\<forall>j\<in>set post. sc j \<le> sc k"
             "find_loop sk data ks (hs, n, m, l) = Inr (sc k, k, Some (mdl k), Some (lab k))" by blast
      have "a # ks = (a # pre) @ k # post \<and> hs < sc k \<and> (\<forall>j\<in>set (a # pre). sc j < sc k)
            \<and> (\<forall>j\<in>set post. sc j \<le> sc k)
            \<and> find_loop sk data (a # ks) (hs, n, m, l) = Inr (sc k, k, Some (mdl k), Some (lab k))"
        using p False step by auto
      then show ?thesis by blast
    qed
  qed
qed

lemma find_loop_first:
  assumes ok: "\<forall>k\<in>set (a # ks). KMeans_fit sk k 1 data = Inr (mdl k)
            \<and> KMeans_predict sk (mdl k) data = Inr (lab k)
            \<and> calinski_harabasz_score sk data (lab k) = Inr (sc k)"
      and ns: "\<forall>k\<in>set (a # ks). sc k \<noteq> - 999"
  shows "\<exists>pre k post. a # ks = pre @ k # post
             \<and> (\<forall>j\<in>set pre. sc j < sc k) \<and> (\<forall>j\<in>set post. sc j \<le> sc k)
             \<and> find_loop sk data (a # ks) (- 999, n, m, l) = Inr (sc k, k, Some (mdl k), Some (lab k))"
proof -
  have a: "KMeans_fit sk a 1 data = Inr (mdl a)" "KMeans_predict sk (mdl a) data = Inr (lab a)"
          "calinski_harabasz_score sk data (lab a) = Inr (sc a)" "sc a \<noteq> - 999"
    using ok ns by auto
  have ok': "\<forall>k\<in>set ks. KMeans_fit sk k 1 data = Inr (mdl k)
            \<and> KMeans_predict sk (mdl k) data = Inr (lab k)
            \<and> calinski_harabasz_score sk data (lab k) = Inr (sc k)"
    and ns': "\<forall>k\<in>set ks. sc k \<noteq> - 999"
    using ok ns by auto
  have step: "find_loop sk data (a # ks) (- 999, n, m, l)
                = find_loop sk data ks (sc a, a, Some (mdl a), Some (lab a))"
    using a by simp
  from find_loop_started[OF ok' ns' a(4), of a "Some (mdl a)" "Some (lab a)"]
  show ?thesis
  proof
    assume h: "find_loop sk data ks (sc a, a, Some (mdl a), Some (lab a))
                   = Inr (sc a, a, Some (mdl a), Some (lab a)) \<and> (\<forall>j\<in>set ks. sc j \<le> sc a)"
    have "a # ks = [] @ a # ks \<and> (\<forall>j\<in>set []. sc j < sc a)
            \<and> (\<forall>j\<in>set ks. sc j \<le> sc a)
            \<and> find_loop sk data (a # ks) (- 999, n, m, l) = Inr (sc a, a, Some (mdl a), Some (lab a))"
      using h step by simp
    then show ?thesis by blast
  next
    assume "\<exists>pre k post. ks = pre @ k # post \<and> sc a < sc k
             \<and> (\<forall>j\<in>set pre. sc j < sc k) \<and> (\<forall>j\<in>set post. sc j \<le> sc k)
             \<and> find_loop sk data ks (sc a, a, Some (mdl a), Some (lab a))
                 = Inr (sc k, k, Some (mdl k), Some (lab k))"
    then obtain pre k post where p: "ks = pre @ k # post" "sc a < sc k"
             "\<forall>j\<in>set pre. sc j < sc k" "\<forall>j\<in>set post. sc j \<le> sc k"
             "find_loop sk data ks (sc a, a, Some (mdl a), Some (lab a))
                 = Inr (sc k, k, Some (mdl k), Some (lab k))" by blast
    have "a # ks = (a # pre) @ k # post \<and> (\<forall>j\<in>set (a # pre). sc j < sc k)
            \<and> (\<forall>j\<in>set post. sc j \<le> sc k)
            \<and> find_loop sk data (a # ks) (- 999, n, m, l) = Inr (sc k, k, Some (mdl k), Some (lab k))"
      using p step by simp
    then show ?thesis by blast
  qed
qed


lemma int_3_6: "k \<in> {3..<6} \<Longrightarrow> k = (3::int) \<or> k = 4 \<or> k = 5"
  by auto

lemma len_six: "length six_rows = 6" by (simp add: six_rows_def)

lemma upt6: "[0..<6] = [0,1,2,3,4,5]" by (simp add: upt_rec)


text \<open>
  Claim C1, as the code has it.  On a non-empty range \<open>[min_cluster, max_cluster)\<close>
  and for a feature matrix on which every candidate count is fitted (with
  \<open>random_state = 1\<close>), labelled and scored without an exception, the scores being
  values of the Calinski-Harabasz index (which is never the sentinel \<open>-999\<close>),
  \<open>find_clusters_KMeans\<close> returns a count \<open>k\<close> of the range together with the model
  and the labels fitted for \<open>k\<close>; every smaller candidate scores strictly less than
  \<open>k\<close> and no larger candidate scores more: \<open>k\<close> is the first count, in ascending
  order, that reaches the highest score.
\<close>

theorem find_clusters_KMeans_best:
  assumes ne: "min_cluster < max_cluster"
      and ok: "\<forall>k\<in>{min_cluster..<max_cluster}. KMeans_fit sk k 1 data = Inr (mdl k)
            \<and> KMeans_predict sk (mdl k) data = Inr (lab k)
            \<and> calinski_harabasz_score sk data (lab k) = Inr (sc k)"
      and ns: "\<forall>k\<in>{min_cluster..<max_cluster}. sc k \<noteq> - 999"
  shows "\<exists>k. find_clusters_KMeans sk data min_cluster max_cluster
               = Inr (k, Some (mdl k), Some (lab k))
           \<and> min_cluster \<le> k \<and> k < max_cluster
           \<and> (\<forall>j\<in>{min_cluster..<k}. sc j < sc k)
           \<and> (\<forall>j\<in>{k<..<max_cluster}. sc j \<le> sc k)"
proof -
  have up: "[min_cluster..max_cluster - 1] = min_cluster # [min_cluster + 1..max_cluster - 1]"
    using ne by (simp add: upto_rec1)
  have st: "set [min_cluster..max_cluster - 1] = {min_cluster..<max_cluster}"
    by auto
  have ok': "\<forall>k\<in>set (min_cluster # [min_cluster + 1..max_cluster - 1]).
             KMeans_fit sk k 1 data = Inr (mdl k)
            \<and> KMeans_predict sk (mdl k) data = Inr (lab k)
            \<and> calinski_harabasz_score sk data (lab k) = Inr (sc k)"
    using ok st up by metis
  have ns': "\<forall>k\<in>set (min_cluster # [min_cluster + 1..max_cluster - 1]). sc k \<noteq> - 999"
    using ns st up by metis
  from find_loop_first[OF ok' ns', of min_cluster None None]
  obtain pre k post where p:
      "min_cluster # [min_cluster + 1..max_cluster - 1] = pre @ k # post"
      "\<forall>j\<in>set pre. sc j < sc k" "\<forall>j\<in>set post. sc j \<le> sc k"
      "find_loop sk data (min_cluster # [min_cluster + 1..max_cluster - 1])
         (- 999, min_cluster, None, None) = Inr (sc k, k, Some (mdl k), Some (lab k))"
    by blast
  have sp: "[min_cluster..max_cluster - 1] = pre @ k # post" using p(1) up by simp
  note sets = upto_split_sets[OF sp]
  have post: "{k<..<max_cluster} = {k<..max_cluster - 1}" by auto
  have res: "find_clusters_KMeans sk data min_cluster max_cluster
               = Inr (k, Some (mdl k), Some (lab k))"
    using p(4) up by (simp add: find_clusters_KMeans_def)
  show ?thesis
    using res sets p(2,3) post by (intro exI[of _ k]) auto
qed


theorem find_clusters_KMeans_best_witness:
  "(3::int) < 6 \<and>
   find_clusters_KMeans (table_sklearn (\<lambda>k. if k = 3 then 2 else 10)) six_rows 3 6
     = Inr (4, Some 4, Some [0, 1, 2, 3, 0, 1])"
proof -
  let ?sk = "table_sklearn (\<lambda>k. if k = 3 then 2 else 10)"
  let ?lab = "\<lambda>k::int. map (\<lambda>i. i mod nat k) [0..<6]"
  let ?sc = "\<lambda>k::int. if k = 3 then 2 else (10::real)"
  have ok: "\<forall>k\<in>{3..<6}. KMeans_fit ?sk k 1 six_rows = Inr k
            \<and> KMeans_predict ?sk k six_rows = Inr (?lab k)
            \<and> calinski_harabasz_score ?sk six_rows (?lab k) = Inr (?sc k)"
  proof
    fix k :: int assume "k \<in> {3..<6}"
    then have "k = 3 \<or> k = 4 \<or> k = 5" by (rule int_3_6)
    then show "KMeans_fit ?sk k 1 six_rows = Inr k
            \<and> KMeans_predict ?sk k six_rows = Inr (?lab k)
            \<and> calinski_harabasz_score ?sk six_rows (?lab k) = Inr (?sc k)"
    proof (elim disjE)
      assume "k = 3" then show ?thesis by (simp add: table_sklearn_def len_six upt6)
    next
      assume "k = 4" then show ?thesis by (simp add: table_sklearn_def len_six upt6)
    next
      assume "k = 5" then show ?thesis by (simp add: table_sklearn_def len_six upt6)
    qed
  qed
  have ns: "\<forall>k\<in>{3..<6}. ?sc k \<noteq> - 999"
  proof
    fix k :: int show "?sc k \<noteq> - 999" by (cases "k = 3") simp_all
  qed
  have lt: "(3::int) < 6" by simp
  from find_clusters_KMeans_best[of 3 6 ?sk six_rows "\<lambda>k. k" ?lab ?sc, OF lt ok ns]
  obtain k where k: "find_clusters_KMeans ?sk six_rows 3 6 = Inr (k, Some k, Some (?lab k))"
      "3 \<le> k" "k < 6" "\<forall>j\<in>{3..<k}. ?sc j < ?sc k" "\<forall>j\<in>{k<..<6}. ?sc j \<le> ?sc k"
    by blast
  have "k \<noteq> 3"
  proof
    assume e: "k = 3"
    then have "4 \<in> {k<..<6}" by simp
    with k(5) have "?sc 4 \<le> ?sc k" by blast
    then show False using e by simp
  qed
  moreover have "k \<noteq> 5"
  proof
    assume e: "k = 5"
    then have "4 \<in> {3..<k}" by simp
    with k(4) have "?sc 4 < ?sc k" by blast
    then show False using e by simp
  qed
  ultimately have "k = 4" using k(2,3) by arith
  then show ?thesis using k(1) by (simp add: upt6)
qed


text \<open>
  A matrix of six rows and the range \<open>[3, 20)\<close>: the candidates 3, 4 and 5 are
  fitted and scored, the score of six clusters on six rows raises, and so does
  the function.
\<close>

theorem find_clusters_KMeans_raises_counterexample:
  "find_clusters_KMeans (table_sklearn (\<lambda>k. 1)) six_rows 3 20 = Inl ValueError"
  by code_simp

lemma find_loop_chosen:
  assumes "find_loop sk data ks (hs, n, m, l) = Inr (hs', n', m', l')"
  shows "((n', m', l') = (n, m, l) \<and> (ks = [] \<or> hs \<noteq> - 999))
       \<or> (n' \<in> set ks \<and> (\<exists>mdl labels score. m' = Some mdl \<and> l' = Some labels
     \<and> KMeans_fit sk n' 1 data = Inr mdl \<and> KMeans_predict sk mdl data = Inr labels
     \<and> calinski_harabasz_score sk data labels = Inr score))"
  using assms
proof (induction ks arbitrary: hs n m l)
  case Nil
  then show ?case by simp
next
  case (Cons a ks)
  from Cons.prems obtain mdl where f: "KMeans_fit sk a 1 data = Inr mdl"
    by (cases "KMeans_fit sk a 1 data") auto
  from Cons.prems f obtain labels where p: "KMeans_predict sk mdl data = Inr labels"
    by (cases "KMeans_predict sk mdl data") auto
  from Cons.prems f p obtain score where s: "calinski_harabasz_score sk data labels = Inr score"
    by (cases "calinski_harabasz_score sk data labels") auto
  show ?case
  proof (cases "hs = - 999 \<or> hs < score")
    case True
    then have "find_loop sk data ks (score, a, Some mdl, Some labels) = Inr (hs', n', m', l')"
      using Cons.prems f p s by simp
    from Cons.IH[OF this] show ?thesis using f p s by auto
  next
    case False
    then have "find_loop sk data ks (hs, n, m, l) = Inr (hs', n', m', l')"
      using Cons.prems f p s by simp
    from Cons.IH[OF this] show ?thesis using False by auto
  qed
qed


text \<open>
  Claim C7, as the code has it.  On a degenerate range (\<open>max_cluster \<le> min_cluster\<close>)
  \<open>find_clusters_KMeans\<close> raises nothing: it returns \<open>min_cluster\<close> with no model and
  no labels, because the loop body never runs.  On a non-empty range, whenever it
  returns normally the chosen count lies in \<open>[min_cluster, max_cluster)\<close> and is one
  that was fitted, labelled and scored.
\<close>

theorem find_clusters_KMeans_degenerate:
  "(max_cluster \<le> min_cluster \<longrightarrow>
      find_clusters_KMeans sk data min_cluster max_cluster = Inr (min_cluster, None, None))
   \<and> (min_cluster < max_cluster
        \<and> find_clusters_KMeans sk data min_cluster max_cluster = Inr (n, m, l) \<longrightarrow>
      min_cluster \<le> n \<and> n < max_cluster
      \<and> (\<exists>mdl labels score. m = Some mdl \<and> l = Some labels
           \<and> KMeans_fit sk n 1 data = Inr mdl \<and> KMeans_predict sk mdl data = Inr labels
           \<and> calinski_harabasz_score sk data labels = Inr score))"
proof -
  have deg: "find_clusters_KMeans sk data min_cluster max_cluster = Inr (min_cluster, None, None)"
    if "max_cluster \<le> min_cluster"
    using that by (simp add: find_clusters_KMeans_def)
  have rng: "min_cluster \<le> n \<and> n < max_cluster
      \<and> (\<exists>mdl labels score. m = Some mdl \<and> l = Some labels
           \<and> KMeans_fit sk n 1 data = Inr mdl \<and> KMeans_predict sk mdl data = Inr labels
           \<and> calinski_harabasz_score sk data labels = Inr score)"
    if a: "min_cluster < max_cluster"
      and b: "find_clusters_KMeans sk data min_cluster max_cluster = Inr (n, m, l)"
  proof -
    from b obtain hs where r: "find_loop sk data [min_cluster..max_cluster - 1]
             (- 999, min_cluster, None, None) = Inr (hs, n, m, l)"
      by (auto simp: find_clusters_KMeans_def split: sum.splits)
    have ne: "[min_cluster..max_cluster - 1] \<noteq> []" using a by simp
    from find_loop_chosen[OF r] ne
    have "n \<in> set [min_cluster..max_cluster - 1] \<and> (\<exists>mdl labels score. m = Some mdl \<and> l = Some labels
       \<and> KMeans_fit sk n 1 data = Inr mdl \<and> KMeans_predict sk mdl data = Inr labels
       \<and> calinski_harabasz_score sk data labels = Inr score)" by blast
    then show ?thesis by auto
  qed
  show ?thesis using deg rng by blast
qed


theorem find_clusters_KMeans_degenerate_witness:
  "(5::int) \<le> 5 \<and>
   find_clusters_KMeans (table_sklearn (\<lambda>k. 1)) six_rows 5 5 = Inr (5, None, None) \<and>
   (3::int) < 6 \<and>
   find_clusters_KMeans (table_sklearn (\<lambda>k. 1)) six_rows 3 6
     = Inr (3, Some 3, Some [0, 1, 2, 0, 1, 2]) \<and>
   (3::int) \<le> 3 \<and> (3::int) < 6 \<and>
   KMeans_fit (table_sklearn (\<lambda>k. 1)) 3 1 six_rows = Inr 3"
proof -
  let ?sk = "table_sklearn (\<lambda>k. 1)"
  have r: "find_clusters_KMeans ?sk six_rows 3 6 = Inr (3, Some 3, Some [0, 1, 2, 0, 1, 2])"
    by (simp add: find_clusters_KMeans_def table_sklearn_def len_six upt6 upto.simps)
  have f: "KMeans_fit ?sk 3 1 six_rows = Inr 3"
    by (simp add: table_sklearn_def len_six)
  show ?thesis
    using find_clusters_KMeans_degenerate[of 5 5 ?sk six_rows]
          find_clusters_KMeans_degenerate[of 6 3 ?sk six_rows 3 "Some 3" "Some [0, 1, 2, 0, 1, 2]"]
          r f
    by simp
qed


text \<open>
  The degenerate range \<open>[5, 5)\<close>: the function returns normally, with the count 5
  outside the (empty) range and with neither model nor labels.
\<close>

theorem find_clusters_KMeans_degenerate_counterexample:
  "find_clusters_KMeans (table_sklearn (\<lambda>k. 1)) six_rows 5 5
     = Inr (5, None, None)"
  by (simp add: find_clusters_KMeans_def)

subsection \<open>Filtering by cluster frequency\<close>

lemma fold_counts:
  "fold (\<lambda>l m. m(l \<mapsto> (case m l of None \<Rightarrow> 1 | Some c \<Rightarrow> Suc c))) labels m0 x
   = (case m0 x of
        None \<Rightarrow> if x \<in> set labels then Some (count_list labels x) else None
      | Some c \<Rightarrow> Some (c + count_list labels x))"
proof (induction labels arbitrary: m0)
  case Nil
  then show ?case by (simp split: option.splits)
next
  case (Cons a labels)
  let ?f = "\<lambda>l m. m(l \<mapsto> (case m l of None \<Rightarrow> 1 | Some c \<Rightarrow> Suc c))"
  let ?m = "m0(a \<mapsto> (case m0 a of None \<Rightarrow> 1 | Some c \<Rightarrow> Suc c))"
  have "fold ?f (a # labels) m0 x = fold ?f labels ?m x" by simp
  also have "\<dots> = (case ?m x of
        None \<Rightarrow> if x \<in> set labels then Some (count_list labels x) else None
      | Some c \<Rightarrow> Some (c + count_list labels x))" by (rule Cons.IH)
  also have "\<dots> = (case m0 x of
        None \<Rightarrow> if x \<in> set (a # labels) then Some (count_list (a # labels) x) else None
      | Some c \<Rightarrow> Some (c + count_list (a # labels) x))"
    by (cases "x = a"; cases "m0 a"; cases "m0 x"; simp)
  finally show ?case .
qed

lemma value_counts_eq:
  "value_counts labels x = (if x \<in> set labels then Some (count_list labels x) else None)"
  by (simp add: value_counts_def fold_counts)

lemma value_counts_normalize_nth:
  "i < length labels \<Longrightarrow>
   value_counts_normalize labels (labels ! i)
     = Some (real (count_list labels (labels ! i)) / real (length labels))"
  by (simp add: value_counts_normalize_def value_counts_eq)

lemma zip_upt_nth:
  "length xs = n \<Longrightarrow> zip [0..<n] xs = map (\<lambda>i. (i, xs ! i)) [0..<n]"
  by (auto simp: list_eq_iff_nth_eq)


text \<open>
  Claim C6.  With one label per training point, the filtered frame consists of
  exactly the points whose cluster holds at least the fraction
  \<open>frequency_threshold\<close> of the class's training points (member count divided by
  the number of points, compared with \<open>\<ge>\<close>), in their original order, each with its
  index, its row, its cluster and its cluster frequency.  At the boundary the
  comparison is inclusive: a cluster of 10 among 200 points has frequency
  \<open>10/200 = 0.05\<close>; it is kept under threshold 0.05 and dropped under 0.051.
\<close>

theorem filter_td_frequency:
  assumes len: "length labels_kmeans = length td_single_class"
  shows "filter_td frequency_threshold td_single_class labels_kmeans
       = Inr (map (\<lambda>i. (i, td_single_class ! i, labels_kmeans ! i,
                         Some (real (count_list labels_kmeans (labels_kmeans ! i))
                               / real (length td_single_class))))
               (filter (\<lambda>i. frequency_threshold
                              \<le> real (count_list labels_kmeans (labels_kmeans ! i))
                                / real (length td_single_class))
                  [0..<length td_single_class]))"
proof -
  let ?n = "length td_single_class"
  let ?freq = "\<lambda>i. real (count_list labels_kmeans (labels_kmeans ! i)) / real ?n"
  let ?g = "\<lambda>i. (i, td_single_class ! i, labels_kmeans ! i, Some (?freq i))"
  let ?Q = "\<lambda>(i::nat, r::row, c::nat, f). case f of None \<Rightarrow> False | Some v \<Rightarrow> frequency_threshold \<le> v"
  have frame: "zip [0..<?n] (zip td_single_class
                 (zip labels_kmeans (map (value_counts_normalize labels_kmeans) labels_kmeans)))
               = map ?g [0..<?n]"
  proof (rule nth_equalityI)
    show "length (zip [0..<?n] (zip td_single_class
                 (zip labels_kmeans (map (value_counts_normalize labels_kmeans) labels_kmeans))))
          = length (map ?g [0..<?n])"
      using len by simp
  next
    fix i
    assume "i < length (zip [0..<?n] (zip td_single_class
                 (zip labels_kmeans (map (value_counts_normalize labels_kmeans) labels_kmeans))))"
    then have i: "i < ?n" "i < length labels_kmeans" using len by simp_all
    have v: "value_counts_normalize labels_kmeans (labels_kmeans ! i) = Some (?freq i)"
      using value_counts_normalize_nth[OF i(2)] len by simp
    show "zip [0..<?n] (zip td_single_class
                 (zip labels_kmeans (map (value_counts_normalize labels_kmeans) labels_kmeans))) ! i
          = map ?g [0..<?n] ! i"
      using i v by simp
  qed
  have flt: "filter ?Q (map ?g [0..<?n])
             = map ?g (filter (\<lambda>i. frequency_threshold \<le> ?freq i) [0..<?n])"
    by (simp add: filter_map comp_def)
  show ?thesis
    using len by (simp add: filter_td_def frame flt)
qed


lemma count_list_replicate: "count_list (replicate n x) y = (if x = y then n else 0)"
  by (induction n) auto


theorem filter_td_frequency_witness:
  "length labels_190_10 = length (rows_of 1 200)
   \<and> map_sum id (map fst) (filter_td (5 / 100) (rows_of 1 200) labels_190_10) = Inr [0..<200]
   \<and> map_sum id (map fst) (filter_td (51 / 1000) (rows_of 1 200) labels_190_10) = Inr [0..<190]"
proof -
  have len: "length labels_190_10 = length (rows_of 1 200)"
    by (simp add: labels_190_10_def rows_of_def)
  have n: "length (rows_of 1 200) = 200" by (simp add: rows_of_def)
  have c0: "count_list labels_190_10 (labels_190_10 ! i) = 190" if "i < 190" for i
    using that by (simp add: labels_190_10_def nth_append count_list_replicate)
  have c1: "count_list labels_190_10 (labels_190_10 ! i) = 10" if "190 \<le> i" "i < 200" for i
    using that by (simp add: labels_190_10_def nth_append count_list_replicate)
  have split: "[0..<200] = [0..<190] @ [190..<200]"
    using upt_add_eq_append[of 0 190 10] by simp
  let ?n = "length (rows_of 1 200)"
  let ?freq = "\<lambda>i. real (count_list labels_190_10 (labels_190_10 ! i)) / real ?n"
  have all: "filter (\<lambda>i. 5 / 100 \<le> ?freq i) [0..<?n] = [0..<200]"
  proof -
    have "\<forall>i\<in>set [0..<?n]. 5 / 100 \<le> ?freq i"
    proof
      fix i assume "i \<in> set [0..<?n]"
      then have "i < 190 \<or> (190 \<le> i \<and> i < 200)" using n by auto
      then show "5 / 100 \<le> ?freq i"
        using c0 c1 n by auto
    qed
    then have "filter (\<lambda>i. 5 / 100 \<le> ?freq i) [0..<?n] = [0..<?n]" by (rule filter_True)
    then show ?thesis using n by simp
  qed
  have a: "filter (\<lambda>i. 51 / 1000 \<le> ?freq i) [0..<190] = [0..<190]"
  proof (rule filter_True, rule ballI)
    fix i assume "i \<in> set [0..<190]"
    then have "i < 190" by auto
    then show "51 / 1000 \<le> ?freq i"
      using c0 n by auto
  qed
  have b: "filter (\<lambda>i. 51 / 1000 \<le> ?freq i) [190..<200] = []"
  proof (rule filter_False, rule ballI)
    fix i assume "i \<in> set [190..<200]"
    then have "190 \<le> i \<and> i < 200" by auto
    then show "\<not> 51 / 1000 \<le> ?freq i"
      using c1 n by auto
  qed
  have most: "filter (\<lambda>i. 51 / 1000 \<le> ?freq i) [0..<?n] = [0..<190]"
  proof -
    have "filter (\<lambda>i. 51 / 1000 \<le> ?freq i) ([0..<190] @ [190..<200]) = [0..<190]"
      unfolding filter_append a b by simp
    then show ?thesis using split n by simp
  qed
  have r1: "filter_td (5 / 100) (rows_of 1 200) labels_190_10
       = Inr (map (\<lambda>i. (i, rows_of 1 200 ! i, labels_190_10 ! i, Some (?freq i))) [0..<200])"
    using filter_td_frequency[OF len, of "5 / 100"] by (simp only: all)
  have r2: "filter_td (51 / 1000) (rows_of 1 200) labels_190_10
       = Inr (map (\<lambda>i. (i, rows_of 1 200 ! i, labels_190_10 ! i, Some (?freq i))) [0..<190])"
    using filter_td_frequency[OF len, of "51 / 1000"] by (simp only: most)
  have m1: "map_sum id (map fst) (filter_td (5 / 100) (rows_of 1 200) labels_190_10) = Inr [0..<200]"
    unfolding r1 by (simp add: comp_def)
  have m2: "map_sum id (map fst) (filter_td (51 / 1000) (rows_of 1 200) labels_190_10) = Inr [0..<190]"
    unfolding r2 by (simp add: comp_def)
  show ?thesis using len m1 m2 by blast
qed


subsection \<open>A class that cannot be fitted\<close>

lemma filter_td_rows:
  assumes "filter_td thr td labels = Inr t" and "x \<in> set t"
  shows "fst (snd x) \<in> set td"
proof -
  from assms have "x \<in> set (zip [0..<length td]
        (zip td (zip labels (map (value_counts_normalize labels) labels))))"
    by (auto simp: filter_td_def Let_def split: if_splits)
  then have "(fst x, snd x) \<in> set (zip [0..<length td]
        (zip td (zip labels (map (value_counts_normalize labels) labels))))"
    by simp
  then have "snd x \<in> set (zip td (zip labels (map (value_counts_normalize labels) labels)))"
    by (rule set_zip_rightD)
  then have "(fst (snd x), snd (snd x))
               \<in> set (zip td (zip labels (map (value_counts_normalize labels) labels)))"
    by simp
  then show ?thesis
    by (rule set_zip_leftD)
qed

lemma filter_class_rows:
  assumes "filter_class sk rand tf thr j = Inr t" and "x \<in> set t"
  shows "LC_Class_I (fst (snd x)) = j"
proof -
  from assms(1) obtain labels where
    "filter_td thr (filter (\<lambda>r. LC_Class_I r = j) tf) labels = Inr t"
    by (auto simp: filter_class_def Let_def split: sum.splits option.splits)
  from filter_td_rows[OF this assms(2)] show ?thesis by simp
qed

lemma filter_loop_fail:
  assumes fail: "filter_class sk rand tf thr c = Inl e"
      and before: "\<forall>j\<in>set pre. \<exists>t. filter_class sk rand tf thr j = Inr t"
  shows "filter_loop sk rand tf thr (pre @ c # post) acc
         = (fst (filter_loop sk rand tf thr pre acc), Some e)"
  using before
proof (induction pre arbitrary: acc)
  case Nil
  then show ?case using fail by simp
next
  case (Cons a pre)
  then obtain t where t: "filter_class sk rand tf thr a = Inr t" by auto
  have "\<forall>j\<in>set pre. \<exists>t. filter_class sk rand tf thr j = Inr t" using Cons.prems by simp
  from Cons.IH[OF this] show ?case using t by simp
qed

lemma filter_loop_rows:
  assumes "fst (filter_loop sk rand tf thr cs acc) = Some agg" and "x \<in> set agg"
  shows "(\<exists>a. acc = Some a \<and> x \<in> set a) \<or> LC_Class_I (fst (snd x)) \<in> set cs"
  using assms
proof (induction cs arbitrary: acc)
  case Nil
  then show ?case by simp
next
  case (Cons c cs)
  show ?case
  proof (cases "filter_class sk rand tf thr c")
    case (Inl e)
    then show ?thesis using Cons.prems by simp
  next
    case (Inr t)
    let ?acc' = "case acc of None \<Rightarrow> Some t | Some a \<Rightarrow> Some (a @ t)"
    have "fst (filter_loop sk rand tf thr cs ?acc') = Some agg"
      using Cons.prems(1) Inr by simp
    from Cons.IH[OF this Cons.prems(2)]
    show ?thesis
    proof
      assume "\<exists>a. ?acc' = Some a \<and> x \<in> set a"
      then have "(\<exists>a. acc = Some a \<and> x \<in> set a) \<or> x \<in> set t"
        by (cases acc) auto
      then show ?thesis using filter_class_rows[OF Inr, of x] by auto
    next
      assume "LC_Class_I (fst (snd x)) \<in> set cs"
      then show ?thesis by simp
    qed
  qed
qed


text \<open>
  Claim C5, as the code has it.  The loop has no handler.  When the iteration of a
  class \<open>c\<close> raises \<open>e\<close> (a fit on too few samples raises scikit-learn's own
  \<open>ValueError\<close>) after the classes \<open>pre\<close> were processed, the loop stops with \<open>e\<close>: the
  aggregate is what the classes before \<open>c\<close> left, it holds rows of those classes
  only (no point of \<open>c\<close> is retained), and the classes after \<open>c\<close> are not processed.
\<close>

theorem filter_loop_stops_at_failure:
  assumes fail: "filter_class sk rand tf thr c = Inl e"
      and before: "\<forall>j\<in>set pre. \<exists>t. filter_class sk rand tf thr j = Inr t"
  shows "filter_loop sk rand tf thr (pre @ c # post) None
           = (fst (filter_loop sk rand tf thr pre None), Some e)
       \<and> (\<forall>agg. fst (filter_loop sk rand tf thr (pre @ c # post) None) = Some agg \<longrightarrow>
             (\<forall>x\<in>set agg. LC_Class_I (fst (snd x)) \<in> set pre))"
proof -
  have a: "filter_loop sk rand tf thr (pre @ c # post) None
           = (fst (filter_loop sk rand tf thr pre None), Some e)"
    by (rule filter_loop_fail[OF fail before])
  have b: "\<forall>x\<in>set agg. LC_Class_I (fst (snd x)) \<in> set pre"
    if "fst (filter_loop sk rand tf thr (pre @ c # post) None) = Some agg" for agg
  proof
    fix x assume x: "x \<in> set agg"
    from that a have "fst (filter_loop sk rand tf thr pre None) = Some agg" by simp
    from filter_loop_rows[OF this x] show "LC_Class_I (fst (snd x)) \<in> set pre" by simp
  qed
  show ?thesis using a b by blast
qed


lemma filter_class_2:
  "filter_class (table_sklearn (\<lambda>k. 1)) rand_213 training_213 (5 / 100) 2 = Inr class2_frame"
  by code_simp

lemma filter_class_1:
  "filter_class (table_sklearn (\<lambda>k. 1)) rand_213 training_213 (5 / 100) 1 = Inl ValueError"
  by code_simp

theorem filter_loop_stops_at_failure_witness:
  "filter_class (table_sklearn (\<lambda>k. 1)) rand_213 training_213 (5 / 100) 1 = Inl ValueError
   \<and> filter_class (table_sklearn (\<lambda>k. 1)) rand_213 training_213 (5 / 100) 2 = Inr class2_frame
   \<and> filter_loop (table_sklearn (\<lambda>k. 1)) rand_213 training_213 (5 / 100) ([2] @ 1 # [3]) None
       = (Some class2_frame, Some ValueError)
   \<and> LC_Class_I (fst (snd (hd class2_frame))) \<in> set [2]"
proof -
  let ?sk = "table_sklearn (\<lambda>k. 1)"
  have before: "\<forall>j\<in>set [2]. \<exists>t. filter_class ?sk rand_213 training_213 (5 / 100) j = Inr t"
    using filter_class_2 by simp
  have pre: "fst (filter_loop ?sk rand_213 training_213 (5 / 100) [2] None) = Some class2_frame"
    using filter_class_2 by simp
  have hd: "hd class2_frame \<in> set class2_frame" by (simp add: class2_frame_def)
  from filter_loop_stops_at_failure[OF filter_class_1 before, of "[3]"]
  have r: "filter_loop ?sk rand_213 training_213 (5 / 100) ([2] @ 1 # [3]) None
             = (Some class2_frame, Some ValueError)"
    and m: "\<forall>agg. fst (filter_loop ?sk rand_213 training_213 (5 / 100) ([2] @ 1 # [3]) None)
               = Some agg \<longrightarrow> (\<forall>x\<in>set agg. LC_Class_I (fst (snd x)) \<in> set [2])"
    using pre by simp_all
  from m r hd have "LC_Class_I (fst (snd (hd class2_frame))) \<in> set [2]" by simp
  then show ?thesis using filter_class_1 filter_class_2 r by blast
qed

text \<open>
  Classes 2, 1, 3 in this order, with 20, 2 and 20 random samples: for class 1 the
  fit for three clusters raises, the cell stops with \<open>ValueError\<close>, and the
  aggregate holds the four rows of class 2, none of the three rows of class 1
  and none of the five rows of class 3.
\<close>

theorem filter_training_features_counterexample:
  "filter_training_features (table_sklearn (\<lambda>k. 1)) rand_213 training_213
     = (Some class2_frame, Some ValueError)"
  by code_simp

section \<open>Properties of the post-processing\<close>

subsection \<open>Values written by the mode filter and the rules\<close>

lemma pixels_assign_where: "pixels (assign_where cur cond v) \<subseteq> pixels cur \<union> {v}"
proof
  fix x assume "x \<in> pixels (assign_where cur cond v)"
  then have "x = v \<or> (\<exists>r c b. (r, c) \<in> set (zip cur cond) \<and> (x, b) \<in> set (zip r c))"
    by (auto simp: pixels_def assign_where_def split: if_splits)
  then show "x \<in> pixels cur \<union> {v}"
  proof
    assume "x = v" then show ?thesis by simp
  next
    assume "\<exists>r c b. (r, c) \<in> set (zip cur cond) \<and> (x, b) \<in> set (zip r c)"
    then obtain r c b where rc: "(r, c) \<in> set (zip cur cond)" and xb: "(x, b) \<in> set (zip r c)"
      by blast
    have "x \<in> set r" using xb by (rule set_zip_leftD)
    moreover have "r \<in> set cur" using rc by (rule set_zip_leftD)
    ultimately show ?thesis by (auto simp: pixels_def)
  qed
qed

lemma pixels_rule_water:
  "pixels (rule_water np_lc_map h r cur) \<subseteq> pixels cur \<union> {12}"
  using pixels_assign_where[of cur _ "dict_map Water_Body"] by (simp add: rule_water_def)

lemma pixels_rule_urban:
  "pixels (rule_urban w b s cur) \<subseteq> pixels cur \<union> {13}"
  using pixels_assign_where[of cur _ "dict_map Urban_Settlement"] by (simp add: rule_urban_def)

lemma pixels_rule_cropland:
  "pixels (rule_cropland np_lc_map cur) \<subseteq> pixels cur \<union> {10}"
  using pixels_assign_where[of cur _ "dict_map Annual_Cropland"]
  by (simp add: rule_cropland_def Let_def)

lemma pixels_rule_road:
  "pixels (rule_road r cur) \<subseteq> pixels cur \<union> {13}"
  using pixels_assign_where[of cur _ "dict_map Urban_Settlement"] by (simp add: rule_road_def)

lemma pixels_apply_rules:
  "pixels (apply_rules w np_lc_map filtered L) \<subseteq> pixels filtered \<union> {10, 12, 13}"
proof -
  have 1: "pixels (rule_water np_lc_map (np_hand L) (np_river_network_mask L) filtered)
           \<subseteq> pixels filtered \<union> {12}" by (rule pixels_rule_water)
  have 2: "pixels (rules_1_2 w np_lc_map filtered L) \<subseteq> pixels filtered \<union> {12, 13}"
    unfolding rules_1_2_def using pixels_rule_urban 1 by fastforce
  have 3: "pixels (rule_cropland np_lc_map (rules_1_2 w np_lc_map filtered L))
           \<subseteq> pixels filtered \<union> {10, 12, 13}"
    using pixels_rule_cropland 2 by fastforce
  show ?thesis
    unfolding apply_rules_def using pixels_rule_road 3 by fastforce
qed

lemma loop_body_outputs:
  "prediction_maps_postproc (loop_body lib st lc_map)
   = prediction_maps_postproc st
     @ [apply_rules 1 (to_numpy lc_map)
          (modal lib (to_numpy lc_map) (disk 2) (arr_neq (to_numpy lc_map) 0))
          (align lib st (geobox lc_map))]"
  by (simp add: loop_body_def refine_steps_def Let_def)

lemma loop_body_valid:
  assumes "pixels (to_numpy lc_map) \<subseteq> valid_codes"
      and "pixels (modal lib (to_numpy lc_map) (disk 2) (arr_neq (to_numpy lc_map) 0))
             \<subseteq> pixels (to_numpy lc_map) \<union> {0}"
      and "\<forall>r\<in>set (prediction_maps_postproc st). pixels r \<subseteq> valid_codes"
  shows "\<forall>r\<in>set (prediction_maps_postproc (loop_body lib st lc_map)). pixels r \<subseteq> valid_codes"
proof -
  let ?f = "modal lib (to_numpy lc_map) (disk 2) (arr_neq (to_numpy lc_map) 0)"
  have "pixels ?f \<subseteq> valid_codes" using assms(1,2) by (auto simp: valid_codes_def)
  moreover have "{10, 12, 13} \<subseteq> valid_codes" by (simp add: valid_codes_def)
  ultimately have "pixels (apply_rules 1 (to_numpy lc_map) ?f (align lib st (geobox lc_map)))
                    \<subseteq> valid_codes"
    using pixels_apply_rules[of 1 "to_numpy lc_map" ?f "align lib st (geobox lc_map)"] by blast
  then show ?thesis using assms(3) by (simp add: loop_body_outputs)
qed

lemma refinement_loop_valid:
  assumes "\<forall>m\<in>set maps. pixels (to_numpy m) \<subseteq> valid_codes"
      and "\<forall>m\<in>set maps. pixels (modal lib (to_numpy m) (disk 2) (arr_neq (to_numpy m) 0))
             \<subseteq> pixels (to_numpy m) \<union> {0}"
      and "\<forall>r\<in>set (prediction_maps_postproc st). pixels r \<subseteq> valid_codes"
  shows "\<forall>r\<in>set (prediction_maps_postproc (refinement_loop lib st maps)).
           pixels r \<subseteq> valid_codes"
  using assms
proof (induction maps arbitrary: st)
  case Nil
  then show ?case by simp
next
  case (Cons m maps)
  have "\<forall>r\<in>set (prediction_maps_postproc (loop_body lib st m)). pixels r \<subseteq> valid_codes"
    using Cons.prems by (intro loop_body_valid) simp_all
  with Cons.IH[of "loop_body lib st m"] Cons.prems show ?case by simp
qed

lemma fold_mode_step:
  "(fold (mode_step h) xs (i, m) = (i, m) \<and> (\<forall>x\<in>set xs. count_list h x \<le> m))
   \<or> (\<exists>pre k post. xs = pre @ k # post \<and> m < count_list h k
         \<and> (\<forall>x\<in>set pre. count_list h x < count_list h k)
         \<and> (\<forall>x\<in>set post. count_list h x \<le> count_list h k)
         \<and> fold (mode_step h) xs (i, m) = (k, count_list h k))"
proof (induction xs arbitrary: i m)
  case Nil
  then show ?case by simp
next
  case (Cons a xs)
  show ?case
  proof (cases "m < count_list h a")
    case True
    have step: "fold (mode_step h) (a # xs) (i, m) = fold (mode_step h) xs (a, count_list h a)"
      using True by (simp add: mode_step_def)
    from Cons.IH[of a "count_list h a"] show ?thesis
    proof
      assume u: "fold (mode_step h) xs (a, count_list h a) = (a, count_list h a)
                 \<and> (\<forall>x\<in>set xs. count_list h x \<le> count_list h a)"
      have "a # xs = [] @ a # xs \<and> m < count_list h a
         \<and> (\<forall>x\<in>set []. count_list h x < count_list h a)
         \<and> (\<forall>x\<in>set xs. count_list h x \<le> count_list h a)
         \<and> fold (mode_step h) (a # xs) (i, m) = (a, count_list h a)"
        using u True step by simp
      then show ?thesis by blast
    next
      assume "\<exists>pre k post. xs = pre @ k # post \<and> count_list h a < count_list h k
         \<and> (\<forall>x\<in>set pre. count_list h x < count_list h k)
         \<and> (\<forall>x\<in>set post. count_list h x \<le> count_list h k)
         \<and> fold (mode_step h) xs (a, count_list h a) = (k, count_list h k)"
      then obtain pre k post where p: "xs = pre @ k # post" "count_list h a < count_list h k"
          "\<forall>x\<in>set pre. count_list h x < count_list h k"
          "\<forall>x\<in>set post. count_list h x \<le> count_list h k"
          "fold (mode_step h) xs (a, count_list h a) = (k, count_list h k)"
        by blast
      have "a # xs = (a # pre) @ k # post \<and> m < count_list h k
         \<and> (\<forall>x\<in>set (a # pre). count_list h x < count_list h k)
         \<and> (\<forall>x\<in>set post. count_list h x \<le> count_list h k)
         \<and> fold (mode_step h) (a # xs) (i, m) = (k, count_list h k)"
        using p True step by simp
      then show ?thesis by blast
    qed
  next
    case False
    have step: "fold (mode_step h) (a # xs) (i, m) = fold (mode_step h) xs (i, m)"
      using False by (simp add: mode_step_def)
    from Cons.IH[of i m] show ?thesis
    proof
      assume "fold (mode_step h) xs (i, m) = (i, m) \<and> (\<forall>x\<in>set xs. count_list h x \<le> m)"
      then show ?thesis using step False by auto
    next
      assume "\<exists>pre k post. xs = pre @ k # post \<and> m < count_list h k
         \<and> (\<forall>x\<in>set pre. count_list h x < count_list h k)
         \<and> (\<forall>x\<in>set post. count_list h x \<le> count_list h k)
         \<and> fold (mode_step h) xs (i, m) = (k, count_list h k)"
      then obtain pre k post where p: "xs = pre @ k # post" "m < count_list h k"
          "\<forall>x\<in>set pre. count_list h x < count_list h k"
          "\<forall>x\<in>set post. count_list h x \<le> count_list h k"
          "fold (mode_step h) xs (i, m) = (k, count_list h k)"
        by blast
      have "a # xs = (a # pre) @ k # post \<and> m < count_list h k
         \<and> (\<forall>x\<in>set (a # pre). count_list h x < count_list h k)
         \<and> (\<forall>x\<in>set post. count_list h x \<le> count_list h k)
         \<and> fold (mode_step h) (a # xs) (i, m) = (k, count_list h k)"
        using p False step by auto
      then show ?thesis by blast
    qed
  qed
qed

lemma count_list_pos: "x \<in> set xs \<Longrightarrow> 0 < count_list xs x"
  by (induction xs) auto

lemma count_list_zero: "x \<notin> set xs \<Longrightarrow> count_list xs x = 0"
  by (induction xs) auto

lemma mode_of_props:
  assumes ne: "histo \<noteq> []"
  shows "mode_of histo \<in> set histo
       \<and> (\<forall>v. count_list histo v \<le> count_list histo (mode_of histo))
       \<and> (\<forall>v. count_list histo v = count_list histo (mode_of histo) \<longrightarrow> mode_of histo \<le> v)"
proof -
  let ?xs = "sort (remdups histo)"
  have sx: "set ?xs = set histo" by simp
  have srt: "sorted ?xs" and dst: "distinct ?xs" by simp_all
  obtain a where a: "a \<in> set histo" using ne by (cases histo) auto
  from fold_mode_step[of histo ?xs 0 0]
  have "\<exists>pre k post. ?xs = pre @ k # post \<and> 0 < count_list histo k
         \<and> (\<forall>x\<in>set pre. count_list histo x < count_list histo k)
         \<and> (\<forall>x\<in>set post. count_list histo x \<le> count_list histo k)
         \<and> fold (mode_step histo) ?xs (0, 0) = (k, count_list histo k)"
  proof
    assume "fold (mode_step histo) ?xs (0, 0) = (0, 0) \<and> (\<forall>x\<in>set ?xs. count_list histo x \<le> 0)"
    then have "count_list histo a \<le> 0" using a sx by blast
    with count_list_pos[OF a] show ?thesis by simp
  qed
  then obtain pre k post where p: "?xs = pre @ k # post"
      "\<forall>x\<in>set pre. count_list histo x < count_list histo k"
      "\<forall>x\<in>set post. count_list histo x \<le> count_list histo k"
      "fold (mode_step histo) ?xs (0, 0) = (k, count_list histo k)"
    by blast
  have mk: "mode_of histo = k" using ne p(4) by (simp add: mode_of_def)
  have kin: "k \<in> set histo" using p(1) sx by (metis in_set_conv_decomp)
  have all: "set histo = set pre \<union> {k} \<union> set post"
  proof -
    have "set ?xs = set (pre @ k # post)" using p(1) by simp
    then show ?thesis using sx by auto
  qed
  have post_gt: "\<forall>x\<in>set post. k < x"
    using srt dst unfolding p(1) by (auto simp: sorted_append less_le)
  have mx: "count_list histo v \<le> count_list histo k" for v
  proof (cases "v \<in> set histo")
    case True
    then show ?thesis using all p(2,3) by (auto simp: less_imp_le)
  next
    case False
    then show ?thesis by (simp add: count_list_zero)
  qed
  have tie: "k \<le> v" if "count_list histo v = count_list histo k" for v
  proof -
    have "0 < count_list histo v" using that count_list_pos[OF kin] by simp
    then have "v \<in> set histo" using count_list_zero[of v histo] by (cases "v \<in> set histo") auto
    then have "v \<in> set pre \<or> v = k \<or> v \<in> set post" using all by auto
    then show ?thesis
    proof (elim disjE)
      assume "v \<in> set pre"
      then have "count_list histo v < count_list histo k" using p(2) by blast
      then show ?thesis using that by simp
    next
      assume "v = k" then show ?thesis by simp
    next
      assume "v \<in> set post"
      then show ?thesis using post_gt by (simp add: less_imp_le)
    qed
  qed
  show ?thesis unfolding mk using kin mx tie by blast
qed

lemma mode_of_Nil: "mode_of [] = 0"
  by (simp add: mode_of_def)

lemma votes_subset: "set (votes img fp msk i j) \<subseteq> pixels img"
proof
  fix v assume "v \<in> set (votes img fp msk i j)"
  then obtain dy dx where im: "in_image img (int i + dy) (int j + dx)"
      and v: "v = img ! nat (int i + dy) ! nat (int j + dx)"
    by (auto simp: votes_def)
  let ?r = "nat (int i + dy)" and ?c = "nat (int j + dx)"
  from im have "?r < length img" "?c < length (img ! ?r)"
    by (simp_all add: in_image_def nat_less_iff)
  then have "img ! ?r \<in> set img" "img ! ?r ! ?c \<in> set (img ! ?r)" by simp_all
  then show "v \<in> pixels img" unfolding v pixels_def by auto
qed

lemma pixels_rank_modal: "pixels (rank_modal img fp msk) \<subseteq> pixels img \<union> {0}"
proof
  fix x assume "x \<in> pixels (rank_modal img fp msk)"
  then obtain i j where x: "x = mode_of (votes img fp msk i j)"
    by (auto simp: pixels_def rank_modal_def)
  show "x \<in> pixels img \<union> {0}"
  proof (cases "votes img fp msk i j = []")
    case True
    then show ?thesis using x by (simp add: mode_of_Nil)
  next
    case False
    from mode_of_props[OF this] have "x \<in> set (votes img fp msk i j)" using x by simp
    then show ?thesis using votes_subset by blast
  qed
qed


lemma refine_all_AB:
  "refine_all grid_lib (layers_AB 1) [forest_at 0, forest_at 2]
     = [[[13, 13], [13, 13]], [[1, 1], [1, 1]]]"
  "refine_all grid_lib (layers_AB 1) [forest_at 2, forest_at 0]
     = [[[13, 13], [13, 13]], [[1, 1], [1, 1]]]"
  by code_simp+

lemma refine_all_mixed:
  "refine_all grid_lib (layers_AB 1) [mixed_at_0, forest_at 2]
     = [[[13, 10], [13, 13]], [[1, 1], [1, 1]]]"
  by code_simp

text \<open>
  Claim C10.  When every input map holds only the no-data code 0 and codes of the
  class dictionary, every pixel of every refined map of the loop lies in
  \<open>{0} \<union> {1, 5, 7, 9, 10, 11, 12, 13}\<close>, whatever the reprojection and the
  rasterisation return: the mode filter of skimage yields only values of its
  input, or 0 (\<open>pixels_rank_modal\<close>), and each rule writes one code of the
  dictionary (12, 13, 10, 13) and leaves the other pixels as they were.
\<close>

theorem refine_all_valid_codes:
  assumes "\<forall>m\<in>set prediction_maps. pixels (to_numpy m) \<subseteq> valid_codes"
  shows "\<forall>r\<in>set (refine_all (lib\<lparr> modal := rank_modal \<rparr>) st prediction_maps).
           pixels r \<subseteq> valid_codes"
proof -
  have m: "\<forall>m\<in>set prediction_maps.
             pixels (modal (lib\<lparr> modal := rank_modal \<rparr>) (to_numpy m) (disk 2)
                       (arr_neq (to_numpy m) 0))
               \<subseteq> pixels (to_numpy m) \<union> {0}"
    using pixels_rank_modal by simp
  show ?thesis
    unfolding refine_all_def
    using assms m by (intro refinement_loop_valid) simp_all
qed

theorem refine_all_valid_codes_witness:
  "pixels (to_numpy mixed_at_0) \<subseteq> valid_codes
   \<and> pixels (to_numpy (forest_at 2)) \<subseteq> valid_codes
   \<and> refine_all grid_lib (layers_AB 1) [mixed_at_0, forest_at 2]
       = [[[13, 10], [13, 13]], [[1, 1], [1, 1]]]
   \<and> pixels [[13, 10], [13, 13]] \<subseteq> valid_codes \<and> pixels [[1, 1], [1, 1]] \<subseteq> valid_codes"
proof -
  let ?maps = "[mixed_at_0, forest_at 2]"
  have v: "\<forall>m\<in>set ?maps. pixels (to_numpy m) \<subseteq> valid_codes"
    by (simp add: mixed_at_0_def mixed_map_def forest_at_def pixels_def valid_codes_def)
  have g: "grid_lib\<lparr> modal := rank_modal \<rparr> = grid_lib" by (simp add: grid_lib_def)
  from refine_all_valid_codes[OF v, of grid_lib "layers_AB 1"]
  have "\<forall>r\<in>set [[[13, 10], [13, 13]], [[1, 1], [1, 1]]]. pixels r \<subseteq> valid_codes"
    by (simp only: g refine_all_mixed)
  then show ?thesis using v refine_all_mixed by simp
qed

subsection \<open>The Annual Cropland rule\<close>

lemma rect_nth: "rect h w a \<Longrightarrow> i < h \<Longrightarrow> length a = h \<and> length (a ! i) = w"
  by (auto simp: rect_def list_all_length)

lemma nth_assign_where:
  assumes "i < length cur" "i < length cond" "j < length (cur ! i)" "j < length (cond ! i)"
  shows "assign_where cur cond v ! i ! j = (if cond ! i ! j then v else cur ! i ! j)"
  using assms by (simp add: assign_where_def)

lemma nth_arr_and:
  assumes "i < length a" "i < length b" "j < length (a ! i)" "j < length (b ! i)"
  shows "arr_and a b ! i ! j = (a ! i ! j \<and> b ! i ! j)"
  using assms by (simp add: arr_and_def)

lemma disk_iff:
  "(dy, dx) \<in> set (disk r) \<longleftrightarrow>
     - int r \<le> dy \<and> dy \<le> int r \<and> - int r \<le> dx \<and> dx \<le> int r
     \<and> dy * dy + dx * dx \<le> int r * int r"
  by (auto simp: disk_def)

lemma binary_dilation_shape:
  "length (binary_dilation img fp) = length img"
  "i < length img \<Longrightarrow> length (binary_dilation img fp ! i) = length (img ! i)"
  by (simp_all add: binary_dilation_def)

lemma binary_dilation_nth:
  assumes "i < length img" "j < length (img ! i)"
  shows "binary_dilation img fp ! i ! j \<longleftrightarrow>
           (\<exists>(dy, dx)\<in>set fp. in_image img (int i + dy) (int j + dx)
                \<and> img ! nat (int i + dy) ! nat (int j + dx))"
  using assms by (simp add: binary_dilation_def list_ex_iff)

lemma square_le_25:
  fixes d :: int
  assumes "d * d \<le> 25"
  shows "- 5 \<le> d \<and> d \<le> 5"
proof (rule ccontr)
  assume "\<not> (- 5 \<le> d \<and> d \<le> 5)"
  then have "6 \<le> \<bar>d\<bar>" by arith
  then have "6 * 6 \<le> \<bar>d\<bar> * \<bar>d\<bar>" by (intro mult_mono) simp_all
  then have "36 \<le> d * d" by (simp add: abs_mult_self_eq)
  with assms show False by simp
qed

lemma urban_buffered_iff:
  assumes r: "rect h w np_lc_map" and i: "i < h" and j: "j < w"
  shows "binary_dilation (arr_eq np_lc_map k) (disk 5) ! i ! j \<longleftrightarrow>
           (\<exists>i'<h. \<exists>j'<w. (int i' - int i)\<^sup>2 + (int j' - int j)\<^sup>2 \<le> 25
                          \<and> np_lc_map ! i' ! j' = k)"
proof -
  let ?img = "arr_eq np_lc_map k"
  have len: "length ?img = h" using r by (simp add: arr_eq_def rect_def)
  have row: "length (?img ! a) = w" if "a < h" for a
    using rect_nth[OF r that] that by (simp add: arr_eq_def)
  have px: "?img ! a ! b \<longleftrightarrow> np_lc_map ! a ! b = k" if "a < h" "b < w" for a b
    using rect_nth[OF r that(1)] that by (simp add: arr_eq_def)
  have inimg: "in_image ?img a b \<longleftrightarrow> 0 \<le> a \<and> a < int h \<and> 0 \<le> b \<and> b < int w" for a b
  proof (cases "0 \<le> a \<and> a < int h")
    case True
    then have "nat a < h" by (simp add: nat_less_iff)
    from row[OF this] show ?thesis using True len by (simp add: in_image_def)
  next
    case False
    then show ?thesis using len by (auto simp: in_image_def)
  qed
  have "binary_dilation ?img (disk 5) ! i ! j \<longleftrightarrow>
          (\<exists>(dy, dx)\<in>set (disk 5). in_image ?img (int i + dy) (int j + dx)
                \<and> ?img ! nat (int i + dy) ! nat (int j + dx))"
    using i j len row[OF i] by (intro binary_dilation_nth) simp_all
  also have "\<dots> \<longleftrightarrow> (\<exists>i'<h. \<exists>j'<w. (int i' - int i)\<^sup>2 + (int j' - int j)\<^sup>2 \<le> 25
                          \<and> np_lc_map ! i' ! j' = k)"
  proof
    assume "\<exists>(dy, dx)\<in>set (disk 5). in_image ?img (int i + dy) (int j + dx)
                \<and> ?img ! nat (int i + dy) ! nat (int j + dx)"
    then obtain dy dx where d: "(dy, dx) \<in> set (disk 5)"
        and im: "in_image ?img (int i + dy) (int j + dx)"
        and v: "?img ! nat (int i + dy) ! nat (int j + dx)"
      by blast
    let ?a = "nat (int i + dy)" and ?b = "nat (int j + dx)"
    from im have rng: "0 \<le> int i + dy" "int i + dy < int h" "0 \<le> int j + dx" "int j + dx < int w"
      by (simp_all add: inimg)
    then have ab: "?a < h" "?b < w" "int ?a = int i + dy" "int ?b = int j + dx"
      by (simp_all add: nat_less_iff)
    have "dy * dy + dx * dx \<le> 25" using d by (simp add: disk_iff)
    then have "(int ?a - int i)\<^sup>2 + (int ?b - int j)\<^sup>2 \<le> 25"
      using ab(3,4) by (simp add: power2_eq_square)
    moreover have "np_lc_map ! ?a ! ?b = k" using v px[OF ab(1,2)] by simp
    ultimately show "\<exists>i'<h. \<exists>j'<w. (int i' - int i)\<^sup>2 + (int j' - int j)\<^sup>2 \<le> 25
                          \<and> np_lc_map ! i' ! j' = k"
      using ab(1,2) by blast
  next
    assume "\<exists>i'<h. \<exists>j'<w. (int i' - int i)\<^sup>2 + (int j' - int j)\<^sup>2 \<le> 25
                          \<and> np_lc_map ! i' ! j' = k"
    then obtain i' j' where p: "i' < h" "j' < w"
        "(int i' - int i)\<^sup>2 + (int j' - int j)\<^sup>2 \<le> 25" "np_lc_map ! i' ! j' = k"
      by blast
    let ?dy = "int i' - int i" and ?dx = "int j' - int j"
    have sq: "?dy * ?dy + ?dx * ?dx \<le> 25" using p(3) by (simp add: power2_eq_square)
    have "0 \<le> ?dx * ?dx" "0 \<le> ?dy * ?dy" by simp_all
    with sq have "?dy * ?dy \<le> 25" "?dx * ?dx \<le> 25" by linarith+
    then have "- 5 \<le> ?dy \<and> ?dy \<le> 5" "- 5 \<le> ?dx \<and> ?dx \<le> 5"
      by (simp_all only: square_le_25)
    then have d: "(?dy, ?dx) \<in> set (disk 5)" using sq by (simp add: disk_iff)
    have e: "int i + ?dy = int i'" "int j + ?dx = int j'" by simp_all
    have "in_image ?img (int i + ?dy) (int j + ?dx)
          \<and> ?img ! nat (int i + ?dy) ! nat (int j + ?dx)"
      unfolding e using p px[OF p(1,2)] by (simp add: inimg)
    with d show "\<exists>(dy, dx)\<in>set (disk 5). in_image ?img (int i + dy) (int j + dx)
                \<and> ?img ! nat (int i + dy) ! nat (int j + dx)"
      by blast
  qed
  finally show ?thesis .
qed


text \<open>
  Claim C2, as the code has it.  On a rectangular map, with \<open>cur\<close> the in-progress
  output after rules 1 and 2, rule 3 sets pixel \<open>(i, j)\<close> to Annual Cropland exactly
  when some pixel of the map \<^emph>\<open>as loaded\<close> within Euclidean distance 5 is Urban
  Settlement and the pixel itself is Wetland in the map \<^emph>\<open>as loaded\<close>; every other
  pixel keeps its in-progress value.  Both tests read \<open>np_lc_map\<close>: neither the
  pixels made Urban Settlement by rule 2 nor the pixel's in-progress class enter.
\<close>

theorem rule_cropland_pixel:
  assumes r: "rect h w np_lc_map" and c: "rect h w cur" and i: "i < h" and j: "j < w"
  shows "rule_cropland np_lc_map cur ! i ! j =
           (if (\<exists>i'<h. \<exists>j'<w. (int i' - int i)\<^sup>2 + (int j' - int j)\<^sup>2 \<le> 25
                   \<and> np_lc_map ! i' ! j' = dict_map Urban_Settlement)
               \<and> np_lc_map ! i ! j = dict_map Wetland
            then dict_map Annual_Cropland else cur ! i ! j)"
proof -
  let ?ub = "binary_dilation (arr_eq np_lc_map (dict_map Urban_Settlement)) (disk 5)"
  let ?u1 = "arr_eq (map (map of_bool) ?ub) (1::nat)"
  let ?wet = "arr_eq np_lc_map (dict_map Wetland)"
  note ri = rect_nth[OF r i] and ci = rect_nth[OF c i]
  have ublen: "length ?ub = h" "length (?ub ! i) = w"
    using ri i by (simp_all add: binary_dilation_shape arr_eq_def)
  have u1: "length ?u1 = h" "length (?u1 ! i) = w"
       "?u1 ! i ! j = ?ub ! i ! j"
    using ublen i j by (simp_all add: arr_eq_def)
  have wet: "length ?wet = h" "length (?wet ! i) = w"
       "?wet ! i ! j \<longleftrightarrow> np_lc_map ! i ! j = dict_map Wetland"
    using ri i j by (simp_all add: arr_eq_def)
  have cond: "arr_and ?u1 ?wet ! i ! j \<longleftrightarrow> ?ub ! i ! j \<and> np_lc_map ! i ! j = dict_map Wetland"
    using u1 wet i j by (simp add: nth_arr_and)
  have clen: "length (arr_and ?u1 ?wet) = h" "length (arr_and ?u1 ?wet ! i) = w"
    using u1 wet i by (simp_all add: arr_and_def)
  have "rule_cropland np_lc_map cur ! i ! j
        = (if arr_and ?u1 ?wet ! i ! j then dict_map Annual_Cropland else cur ! i ! j)"
    unfolding rule_cropland_def Let_def
    using ci clen i j by (intro nth_assign_where) simp_all
  then show ?thesis
    unfolding cond urban_buffered_iff[OF r i j] by simp
qed


theorem rule_cropland_pixel_witness:
  "rect 1 2 [[13, 11 :: nat]] \<and> rect 1 2 [[13, 12 :: nat]] \<and> (0::nat) < 1 \<and> (1::nat) < 2
   \<and> rule_cropland [[13, 11]] [[13, 12]] ! 0 ! 1 = 10"
proof -
  have r: "rect 1 2 [[13, 11 :: nat]]" and c: "rect 1 2 [[13, 12 :: nat]]"
    by (simp_all add: rect_def)
  have ex: "\<exists>i'<1. \<exists>j'<2. (int i' - int 0)\<^sup>2 + (int j' - int 1)\<^sup>2 \<le> 25
               \<and> [[13, 11]] ! i' ! j' = dict_map Urban_Settlement"
    by (rule exI[of _ 0], simp, rule exI[of _ 0], simp)
  have "rule_cropland [[13, 11]] [[13, 12]] ! 0 ! 1 = 10"
    using rule_cropland_pixel[OF r c, of 0 1] ex by simp
  then show ?thesis using r c by simp
qed


text \<open>
  The fourth pixel of \<open>urban_wetland_row\<close> is Wetland as loaded and lies under the
  river, so rule 1 makes it Water Body (12): after rules 1 and 2 its class is
  not Wetland.  Rule 3 still sets it to Annual Cropland (10).
\<close>

theorem rule_cropland_counterexample:
  "rules_1_2 1 urban_wetland_row urban_wetland_row river_layers = [[13, 13, 13, 12, 11, 11]]
   \<and> rule_cropland urban_wetland_row [[13, 13, 13, 12, 11, 11]] = [[13, 13, 13, 10, 10, 10]]
   \<and> apply_rules 1 urban_wetland_row urban_wetland_row river_layers
       = [[13, 13, 13, 10, 10, 10]]"
  by code_simp

subsection \<open>The mode filter and no-data pixels\<close>















subsection \<open>Demonstration cells and loop body\<close>

text \<open>
  Claim C3.  The demonstration cells and the loop body differ in the literal the
  WSF layer is compared with (255 and 1), so they do not compute the same map.
  A Forest map of two by two pixels, nothing in the other layers: with a WSF
  foreground of 255 the demonstration gives Urban Settlement and the loop gives
  Forest; with a WSF foreground of 1 it is the other way round.
\<close>

theorem wsf_foreground_demo_loop:
  "snd (demo_steps grid_lib (layers_AB 255) (forest_at 0)) = [[13, 13], [13, 13]]
   \<and> refine_all grid_lib (layers_AB 255) [forest_at 0] = [[[1, 1], [1, 1]]]
   \<and> snd (demo_steps grid_lib (layers_AB 1) (forest_at 0)) = [[1, 1], [1, 1]]
   \<and> refine_all grid_lib (layers_AB 1) [forest_at 0] = [[[13, 13], [13, 13]]]"
  by code_simp

subsection \<open>Order of the locations\<close>

text \<open>
  Claim C4.  The loop body assigns the reprojected layers to the globals \<open>hand\<close>
  and \<open>wsf2019\<close>, which the next iteration reprojects again.  With the locations
  \<open>A\<close> (columns 0 and 1) and \<open>B\<close> (columns 2 and 3) and a settlement footprint over
  both, \<open>B\<close> is refined to Urban Settlement when it is processed first or alone,
  and stays Forest when it is processed after \<open>A\<close>, because \<open>wsf2019\<close> then covers
  \<open>A\<close> only.
\<close>

theorem refinement_loop_order:
  "hand (loop_body lib st lc_map) = xr_reproject_float lib (hand st) (geobox lc_map) Average
   \<and> wsf2019 (loop_body lib st lc_map)
       = xr_reproject_uint8 lib (wsf2019 st) (geobox lc_map) Nearest
   \<and> refine_all grid_lib (layers_AB 1) [forest_at 0, forest_at 2]
       = [[[13, 13], [13, 13]], [[1, 1], [1, 1]]]
   \<and> refine_all grid_lib (layers_AB 1) [forest_at 2, forest_at 0]
       = [[[13, 13], [13, 13]], [[1, 1], [1, 1]]]
   \<and> refine_all grid_lib (layers_AB 1) [forest_at 2] = [[[13, 13], [13, 13]]]"
proof -
  have a: "hand (loop_body lib st lc_map)
             = xr_reproject_float lib (hand st) (geobox lc_map) Average"
    and b: "wsf2019 (loop_body lib st lc_map)
             = xr_reproject_uint8 lib (wsf2019 st) (geobox lc_map) Nearest"
    by (simp_all add: loop_body_def refine_steps_def Let_def)
  have c: "refine_all grid_lib (layers_AB 1) [forest_at 2] = [[[13, 13], [13, 13]]]"
    by code_simp
  show ?thesis using a b c refine_all_AB by simp
qed

subsection \<open>Resampling of the auxiliary layers\<close>

text \<open>
  Claim C9, as the code has it.  The demonstration cells and the loop body apply
  the rules to the same aligned layers, in which the elevation above drainage is
  resampled with \<open>average\<close>, the settlement footprint with \<open>nearest\<close>, and the
  building footprint with \<open>average\<close>.
\<close>

theorem align_resampling:
  "snd (demo_steps lib st lc_map)
     = apply_rules 255 (to_numpy lc_map)
         (modal lib (to_numpy lc_map) (disk 2) (arr_neq (to_numpy lc_map) 0))
         (align lib st (geobox lc_map))
   \<and> last (prediction_maps_postproc (loop_body lib st lc_map))
     = apply_rules 1 (to_numpy lc_map)
         (modal lib (to_numpy lc_map) (disk 2) (arr_neq (to_numpy lc_map) 0))
         (align lib st (geobox lc_map))
   \<and> np_hand (align lib st g)
     = float_to_numpy lib (xr_reproject_float lib (hand st) g Average)
   \<and> np_wsf2019 (align lib st g)
     = uint8_to_numpy lib (xr_reproject_uint8 lib (wsf2019 st) g Nearest)
   \<and> np_google_buildings_mask (align lib st g)
     = float_to_numpy lib (xr_reproject_float lib (google_buildings st) g Average)"
  by (simp add: demo_steps_def loop_body_outputs refine_steps_def Let_def align_def)


text \<open>
  A building footprint with one built-up cell of four under a map pixel: the
  layer the rules read holds the interpolated value 1/4, where nearest
  resampling gives 1.
\<close>

theorem google_buildings_average_counterexample:
  "np_google_buildings_mask (align grid_lib layers_fine coarse_box) = [[Some (1 / 4)]]
   \<and> float_to_numpy grid_lib
        (xr_reproject_float grid_lib (google_buildings layers_fine) coarse_box Nearest)
       = [[Some 1]]"
  by code_simp

end
